theory Spec2Isabelle
  imports Complex_Main "HOL-Library.Word" "HOL-Library.Log_Nat"
begin

section \<open>JavaScript values and the runtime library\<close>

text \<open>
  The similarity hashing of \<^verbatim>\<open>src/Recipe.js\<close> (\<^verbatim>\<open>cook\<close>, \<^verbatim>\<open>compareTo\<close>,
  \<^verbatim>\<open>_hashStep\<close>, \<^verbatim>\<open>_hashAttribute\<close>) is embedded below. A value stored in a hashed
  field is undefined, null, a string or a finite number. The result of \<^verbatim>\<open>compareTo\<close> is a
  JavaScript number, an IEEE 754 double: a finite double is the rational it denotes, and
  NaN is kept apart, since \<^verbatim>\<open>0 / 0\<close> is NaN in JavaScript and \<open>0\<close> in HOL.
\<close>

type_synonym byte = "8 word"

datatype jsval = Undefined | Null | Str string | Num rat

datatype number = NaN | Finite rat

text \<open>
  The exceptions the code can throw: \<^verbatim>\<open>new Error(message)\<close> of \<^verbatim>\<open>compareTo\<close> and the
  \<^verbatim>\<open>RangeError\<close> ("Invalid array length") of \<^verbatim>\<open>new Array(numBuckets)\<close>.
\<close>

datatype error = Error string | RangeError

text \<open>
  The functions of Node.js the code calls and the repository does not define are
  parameters of the model:
  \<^item> \<open>md5\<close>: \<^verbatim>\<open>crypto.createHash('md5').update(s).digest()\<close>, a 128-bit digest;
  \<^item> \<open>toLowerCase\<close>: \<^verbatim>\<open>String.prototype.toLowerCase\<close>;
  \<^item> \<open>numberToString\<close>: \<^verbatim>\<open>Number.prototype.toString\<close>;
  \<^item> \<open>gzipSync\<close>, \<open>gunzipSync\<close> of \<^verbatim>\<open>node:zlib\<close>; \<open>gunzipSync\<close> is \<open>None\<close> where it throws;
  \<^item> \<open>toBase64\<close>: \<^verbatim>\<open>buffer.toString('base64')\<close>;
  \<^item> \<open>fromBase64\<close>: \<^verbatim>\<open>Buffer.from(s, 'base64')\<close>, which never throws on a string.
\<close>

record runtime =
  md5 :: "string \<Rightarrow> 128 word"
  toLowerCase :: "string \<Rightarrow> string"
  numberToString :: "rat \<Rightarrow> string"
  gzipSync :: "byte list \<Rightarrow> byte list"
  gunzipSync :: "byte list \<Rightarrow> byte list option"
  toBase64 :: "byte list \<Rightarrow> string"
  fromBase64 :: "string \<Rightarrow> byte list"

subsection \<open>Double arithmetic\<close>

text \<open>
  The arithmetic of \<^verbatim>\<open>compareTo\<close> is IEEE 754 double arithmetic: the exact result of an
  operation, rounded to the nearest double, ties to even. \<open>binade x\<close> is the exponent
  \<open>e\<close> with \<open>2 powi e \<le> \<bar>x\<bar>\<close> and \<open>\<bar>x\<bar> < 2 powi (e + 1)\<close>; a double in that
  binade is a multiple of \<open>2 powi (e - 52)\<close>, and of \<open>2 powi (- 1074)\<close> below the
  normal range. Overflow to infinity is not modelled: the numbers of \<^verbatim>\<open>compareTo\<close> are
  bounded by 255 times the length of a string.
\<close>

definition roundTiesToEven :: "rat \<Rightarrow> int" where
  "roundTiesToEven x =
     (let f = \<lfloor>x\<rfloor>; r = x - of_int f in
      if r < 1 / 2 then f else if 1 / 2 < r then f + 1 else if even f then f else f + 1)"

definition binade :: "rat \<Rightarrow> int" where
  "binade x =
     (if 1 \<le> \<bar>x\<bar> then bitlen \<lfloor>\<bar>x\<bar>\<rfloor> - 1 else - bitlen (\<lceil>1 / \<bar>x\<bar>\<rceil> - 1))"

definition roundToDouble :: "rat \<Rightarrow> rat" where
  "roundToDouble x =
     (if x = 0 then 0
      else (let u = 2 powi max (binade x - 52) (- 1074)
            in of_int (roundTiesToEven (x / u)) * u))"

subsection \<open>Hexadecimal strings\<close>

definition hexDigit :: "nat \<Rightarrow> char" where
  "hexDigit d = (if d < 10 then char_of (48 + d) else char_of (87 + d))"

definition hexValue :: "char \<Rightarrow> nat option" where
  "hexValue c =
     (let n = (of_char c :: nat) in
      if 48 \<le> n \<and> n \<le> 57 then Some (n - 48)
      else if 97 \<le> n \<and> n \<le> 102 then Some (n - 87)
      else if 65 \<le> n \<and> n \<le> 70 then Some (n - 55)
      else None)"

text \<open>\<^verbatim>\<open>count.toString(16)\<close> for a non-negative integer count.\<close>

fun toString16 :: "nat \<Rightarrow> string" where
  "toString16 n =
     (if n < 16 then [hexDigit n] else toString16 (n div 16) @ [hexDigit (n mod 16)])"

declare toString16.simps [simp del]

text \<open>\<^verbatim>\<open>s.padStart(n, c)\<close> for a one-character pad string.\<close>

definition padStart :: "string \<Rightarrow> nat \<Rightarrow> char \<Rightarrow> string" where
  "padStart s n c = replicate (n - length s) c @ s"

text \<open>\<^verbatim>\<open>s.substr(i, n)\<close> for \<open>0 \<le> i\<close>.\<close>

definition substr :: "string \<Rightarrow> nat \<Rightarrow> nat \<Rightarrow> string" where
  "substr s i n = take n (drop i s)"

text \<open>
  \<^verbatim>\<open>Buffer.from(s, 'hex')\<close>: one byte for every two hex digits, stopping at the first
  pair that is not two hex digits; a single trailing character is dropped.
\<close>

fun Buffer_from_hex :: "string \<Rightarrow> byte list" where
  "Buffer_from_hex (a # b # cs) =
     (case (hexValue a, hexValue b) of
        (Some x, Some y) \<Rightarrow> of_nat (16 * x + y) # Buffer_from_hex cs
      | _ \<Rightarrow> [])"
| "Buffer_from_hex _ = []"

text \<open>\<^verbatim>\<open>buffer.toString('hex')\<close>: two lower-case hex digits for every byte.\<close>

definition byte_hex :: "byte \<Rightarrow> string" where
  "byte_hex b = [hexDigit (unat b div 16), hexDigit (unat b mod 16)]"

definition Buffer_toString_hex :: "byte list \<Rightarrow> string" where
  "Buffer_toString_hex bs = concat (map byte_hex bs)"

text \<open>
  \<^verbatim>\<open>parseInt(s, 16)\<close> on a string with no leading white space, sign or \<^verbatim>\<open>0x\<close> (the
  strings that reach it are cut from the output of \<^verbatim>\<open>toString('hex')\<close>): the value of
  the longest prefix of hex digits, NaN (\<open>None\<close>) when that prefix is empty.
\<close>

fun hexPrefix :: "string \<Rightarrow> nat list" where
  "hexPrefix [] = []"
| "hexPrefix (c # cs) = (case hexValue c of None \<Rightarrow> [] | Some d \<Rightarrow> d # hexPrefix cs)"

definition parseInt16 :: "string \<Rightarrow> nat option" where
  "parseInt16 s =
     (case hexPrefix s of
        [] \<Rightarrow> None
      | d # ds \<Rightarrow> Some (foldl (\<lambda>acc x. 16 * acc + x) 0 (d # ds)))"

section \<open>The recipe data model\<close>

text \<open>
  Entities (\<^verbatim>\<open>createEntity\<close>), measurements (\<^verbatim>\<open>Duration\<close>, \<^verbatim>\<open>Temperature\<close>), the
  actions, cues, adjustments and sensory checks a \<^verbatim>\<open>RecipeStep\<close> collects, and the
  step tree itself (\<^verbatim>\<open>threads\<close> holds the parallel child steps). A field that may be
  missing (\<^verbatim>\<open>undefined\<close> or \<^verbatim>\<open>null\<close>) and holds an object otherwise is an \<open>option\<close>.
  Field names are prefixed where two records share a name in the source. The name of an
  entity is a string (the \<^verbatim>\<open>Entity\<close> typedef); the other hashed fields hold any value.
  The temperature that \<^verbatim>\<open>heat\<close> leaves as a string (a level that \<^verbatim>\<open>StoveHeat\<close> does not
  know) has no \<^verbatim>\<open>value\<close>: it is a measurement whose value is undefined.
\<close>

record entity =
  name :: string
  amount :: "rat option"

record measurement =
  mvalue :: jsval
  munit :: string

record action =
  action_type :: jsval
  ingredient :: "entity option"
  container :: "entity option"
  temperature :: "measurement option"
  duration :: "measurement option"

record cue =
  cue_type :: jsval
  cue_description :: jsval

record adjustment =
  adj_condition :: jsval
  adj_action :: jsval

record sensoryCheck =
  check_type :: jsval
  check_description :: jsval
  check_adjustment :: jsval

datatype step = RecipeStep
  (actions: "action list")
  (threads: "step list")
  (cues: "cue list")
  (adjustments: "adjustment list")
  (sensoryChecks: "sensoryCheck list")

text \<open>
  A \<^verbatim>\<open>Recipe\<close> object. \<open>hash\<close> is the cache field \<^verbatim>\<open>this.hash\<close>: \<open>None\<close> is the
  \<^verbatim>\<open>null\<close> the constructor stores.
\<close>

record recipe =
  recipe_name :: string
  ingredients :: "entity list"
  tools :: "entity list"
  appliances :: "entity list"
  steps :: "step list"
  servings :: rat
  difficulty :: string
  tags :: "string list"
  hash :: "string option"

section \<open>Hashing a recipe into buckets\<close>

text \<open>
  \<^verbatim>\<open>parseInt(hash.substr(0, 8), 16) % numBuckets\<close>, where \<^verbatim>\<open>hash\<close> is the hex digest
  of the lower-cased token: the first eight hex digits are the top 32 bits of the digest.
  The remainder by \<open>0\<close> is NaN (\<open>None\<close>).
\<close>

definition bucketIndex :: "runtime \<Rightarrow> string \<Rightarrow> nat \<Rightarrow> nat option" where
  "bucketIndex N s numBuckets =
     (if numBuckets = 0 then None
      else Some (unat (drop_bit 96 (md5 N (toLowerCase N s))) mod numBuckets))"

text \<open>
  \<^verbatim>\<open>buckets[bucketIndex]++\<close>. With a NaN index the statement sets the property
  \<^verbatim>\<open>"NaN"\<close> of the array and leaves every bucket as it is. An index is below
  \<open>numBuckets\<close>, the length of the array, so the write is never out of range.
\<close>

definition increment :: "nat list \<Rightarrow> nat option \<Rightarrow> nat list" where
  "increment buckets idx =
     (case idx of
        None \<Rightarrow> buckets
      | Some i \<Rightarrow> if i < length buckets then buckets[i := buckets ! i + 1] else buckets)"

definition hashAttribute :: "runtime \<Rightarrow> jsval \<Rightarrow> nat list \<Rightarrow> nat \<Rightarrow> nat list" where
  "hashAttribute N v buckets numBuckets =
     (case v of
        Undefined \<Rightarrow> buckets
      | Null \<Rightarrow> buckets
      | Str s \<Rightarrow> increment buckets (bucketIndex N s numBuckets)
      | Num q \<Rightarrow> increment buckets (bucketIndex N (numberToString N q) numBuckets))"

text \<open>The body of \<^verbatim>\<open>step.actions.forEach\<close> in \<^verbatim>\<open>_hashStep\<close>.\<close>

definition hashAction :: "runtime \<Rightarrow> action \<Rightarrow> nat list \<Rightarrow> nat \<Rightarrow> nat list" where
  "hashAction N a buckets numBuckets =
     (let b1 = hashAttribute N (action_type a) buckets numBuckets;
          b2 = (case ingredient a of None \<Rightarrow> b1
                | Some e \<Rightarrow> hashAttribute N (Str (name e)) b1 numBuckets);
          b3 = (case container a of None \<Rightarrow> b2
                | Some e \<Rightarrow> hashAttribute N (Str (name e)) b2 numBuckets);
          b4 = (case temperature a of None \<Rightarrow> b3
                | Some t \<Rightarrow> hashAttribute N (mvalue t) b3 numBuckets)
      in (case duration a of None \<Rightarrow> b4
          | Some d \<Rightarrow> hashAttribute N (mvalue d) b4 numBuckets))"

definition hashCue :: "runtime \<Rightarrow> cue \<Rightarrow> nat list \<Rightarrow> nat \<Rightarrow> nat list" where
  "hashCue N c buckets numBuckets =
     hashAttribute N (cue_description c)
       (hashAttribute N (cue_type c) buckets numBuckets) numBuckets"

definition hashCheck :: "runtime \<Rightarrow> sensoryCheck \<Rightarrow> nat list \<Rightarrow> nat \<Rightarrow> nat list" where
  "hashCheck N c buckets numBuckets =
     hashAttribute N (check_description c)
       (hashAttribute N (check_type c) buckets numBuckets) numBuckets"

fun hashStep :: "runtime \<Rightarrow> step \<Rightarrow> nat list \<Rightarrow> nat \<Rightarrow> nat list" where
  "hashStep N (RecipeStep acts thrs cs adjs chks) buckets numBuckets =
     fold (\<lambda>thread b. hashStep N thread b numBuckets) thrs
       (fold (\<lambda>check b. hashCheck N check b numBuckets) chks
         (fold (\<lambda>cue b. hashCue N cue b numBuckets) cs
           (fold (\<lambda>action b. hashAction N action b numBuckets) acts buckets)))"

section \<open>cook\<close>

text \<open>
  \<^verbatim>\<open>new Array(numBuckets).fill(0)\<close>: a \<^verbatim>\<open>RangeError\<close> unless the length is an integer
  from \<open>0\<close> to \<open>2\<^sup>3\<^sup>2 - 1\<close>.
\<close>

definition newArrayFill0 :: "rat \<Rightarrow> error + nat list" where
  "newArrayFill0 len =
     (if of_int \<lfloor>len\<rfloor> = len \<and> 0 \<le> len \<and> len < 2 ^ 32
      then Inr (replicate (nat \<lfloor>len\<rfloor>) 0) else Inl RangeError)"

text \<open>Lines 241 to 256 of \<^verbatim>\<open>cook\<close>: the histogram of a recipe.\<close>

definition hashIngredient :: "runtime \<Rightarrow> entity \<Rightarrow> nat list \<Rightarrow> nat \<Rightarrow> nat list" where
  "hashIngredient N i buckets numBuckets = increment buckets (bucketIndex N (name i) numBuckets)"

definition fillBuckets :: "runtime \<Rightarrow> recipe \<Rightarrow> nat list \<Rightarrow> nat \<Rightarrow> nat list" where
  "fillBuckets N this buckets numBuckets =
     fold (\<lambda>step b. hashStep N step b numBuckets) (steps this)
       (fold (\<lambda>i b. hashIngredient N i b numBuckets) (ingredients this) buckets)"

text \<open>
  Lines 259 to 264: every count as hex, padded to two digits, the string read as hex
  bytes, compressed and written as base64.
\<close>

definition hexString :: "nat list \<Rightarrow> string" where
  "hexString buckets = concat (map (\<lambda>count. padStart (toString16 count) 2 CHR ''0'') buckets)"

definition encodeBuckets :: "runtime \<Rightarrow> nat list \<Rightarrow> string" where
  "encodeBuckets N buckets = toBase64 N (gzipSync N (Buffer_from_hex (hexString buckets)))"

text \<open>
  \<^verbatim>\<open>cook(numBuckets)\<close> returns the result and the object as it is afterwards.
  \<^verbatim>\<open>if (this.hash)\<close> holds for a string that is not empty. A call with no argument
  is a call with the default, 256; \<^verbatim>\<open>compareTo\<close> makes such calls.
\<close>

definition cachedHash :: "recipe \<Rightarrow> string option" where
  "cachedHash this = (case hash this of None \<Rightarrow> None | Some h \<Rightarrow> if h = [] then None else Some h)"

definition cook :: "runtime \<Rightarrow> recipe \<Rightarrow> rat \<Rightarrow> (error + string) \<times> recipe" where
  "cook N this numBuckets =
     (case cachedHash this of
        Some h \<Rightarrow> (Inr h, this)
      | None \<Rightarrow>
          (case newArrayFill0 numBuckets of
             Inl e \<Rightarrow> (Inl e, this)
           | Inr buckets \<Rightarrow>
               (let h = encodeBuckets N (fillBuckets N this buckets (nat \<lfloor>numBuckets\<rfloor>))
                in (Inr h, this\<lparr>hash := Some h\<rparr>))))"

text \<open>The constructor, with the fields the model keeps, and two of the mutators.\<close>

definition Recipe_create ::
  "string \<Rightarrow> entity list \<Rightarrow> entity list \<Rightarrow> entity list \<Rightarrow> step list \<Rightarrow> rat \<Rightarrow> string
     \<Rightarrow> string list \<Rightarrow> recipe" where
  "Recipe_create nm ings tls apps sts srv diff tgs =
     \<lparr>recipe_name = nm, ingredients = ings, tools = tls, appliances = apps, steps = sts,
      servings = srv, difficulty = diff, tags = tgs, hash = None\<rparr>"

definition scale :: "recipe \<Rightarrow> rat \<Rightarrow> recipe" where
  "scale this factor =
     this\<lparr>ingredients :=
            map (\<lambda>i. i\<lparr>amount := map_option (\<lambda>a. a * factor) (amount i)\<rparr>) (ingredients this),
          servings := servings this * factor\<rparr>"

definition addTags :: "recipe \<Rightarrow> string list \<Rightarrow> recipe" where
  "addTags this newTags = this\<lparr>tags := tags this @ newTags\<rparr>"

section \<open>compareTo\<close>

text \<open>
  Recipe objects live in a store, so that \<^verbatim>\<open>r.compareTo(r)\<close> and a comparison of two
  objects are told apart, and the cache a call fills is seen by the next.
\<close>

type_synonym ref = nat
type_synonym store = "ref \<Rightarrow> recipe"

datatype operand = RecipeRef ref | HashString string

definition cookAt :: "runtime \<Rightarrow> store \<Rightarrow> ref \<Rightarrow> rat \<Rightarrow> (error + string) \<times> store" where
  "cookAt N \<sigma> r numBuckets =
     (case cook N (\<sigma> r) numBuckets of (res, this') \<Rightarrow> (res, \<sigma>(r := this')))"

definition decompressHash :: "runtime \<Rightarrow> string \<Rightarrow> error + string" where
  "decompressHash N h =
     (case gunzipSync N (fromBase64 N h) of
        None \<Rightarrow> Inl (Error ''Invalid hash format: unable to decompress'')
      | Some bs \<Rightarrow> Inr (Buffer_toString_hex bs))"

text \<open>
  \<^verbatim>\<open>decompressHash(x.cook())\<close> for a recipe, \<^verbatim>\<open>decompressHash(x)\<close> for a string.
\<close>

definition operandHash :: "runtime \<Rightarrow> store \<Rightarrow> operand \<Rightarrow> (error + string) \<times> store" where
  "operandHash N \<sigma> x =
     (case x of
        RecipeRef r \<Rightarrow>
          (case cookAt N \<sigma> r 256 of
             (Inl e, \<sigma>') \<Rightarrow> (Inl e, \<sigma>')
           | (Inr h, \<sigma>') \<Rightarrow> (decompressHash N h, \<sigma>'))
      | HashString h \<Rightarrow> (decompressHash N h, \<sigma>))"

text \<open>
  The loop of lines 296 to 300. A count is at most 255, so the difference of two counts
  and its absolute value are exact; the sum \<^verbatim>\<open>distance += ...\<close> is rounded. A NaN count
  makes the distance NaN for good.
\<close>

function distanceLoop :: "string \<Rightarrow> string \<Rightarrow> nat \<Rightarrow> rat option \<Rightarrow> rat option" where
  "distanceLoop thisHash otherHash i distance =
     (if i < length thisHash then
        distanceLoop thisHash otherHash (i + 2)
          (case (distance, parseInt16 (substr thisHash i 2), parseInt16 (substr otherHash i 2)) of
             (Some d, Some count1, Some count2) \<Rightarrow>
               Some (roundToDouble (d + of_int \<bar>int count1 - int count2\<bar>))
           | _ \<Rightarrow> None)
      else distance)"
  by pat_completeness auto
termination
  by (relation "measure (\<lambda>(thisHash, otherHash, i, distance). length thisHash - i)") auto

declare distanceLoop.simps [simp del]

text \<open>
  Lines 289 to 303: \<^verbatim>\<open>totalBuckets = thisHash.length / 2\<close> and
  \<^verbatim>\<open>1 - distance / (16 * totalBuckets)\<close>, every operation rounded. The denominator is
  \<open>0\<close> only when there is no bucket; the distance is \<open>0\<close> then and the quotient
  \<^verbatim>\<open>0 / 0\<close> is NaN.
\<close>

definition compareHashes :: "string \<Rightarrow> string \<Rightarrow> error + number" where
  "compareHashes thisHash otherHash =
     (if length thisHash \<noteq> length otherHash then Inl (Error ''Hashes must be of equal length'')
      else
        (let totalBuckets = roundToDouble (of_nat (length thisHash) / 2);
             denominator = roundToDouble (16 * totalBuckets)
         in case distanceLoop thisHash otherHash 0 (Some 0) of
              None \<Rightarrow> Inr NaN
            | Some distance \<Rightarrow>
                if denominator = 0 then Inr NaN
                else Inr (Finite (roundToDouble (1 - roundToDouble (distance / denominator))))))"

definition compareTo :: "runtime \<Rightarrow> store \<Rightarrow> ref \<Rightarrow> operand \<Rightarrow> (error + number) \<times> store" where
  "compareTo N \<sigma> this other =
     (case operandHash N \<sigma> (RecipeRef this) of
        (Inl e, \<sigma>1) \<Rightarrow> (Inl e, \<sigma>1)
      | (Inr thisHash, \<sigma>1) \<Rightarrow>
          (case operandHash N \<sigma>1 other of
             (Inl e, \<sigma>2) \<Rightarrow> (Inl e, \<sigma>2)
           | (Inr otherHash, \<sigma>2) \<Rightarrow> (compareHashes thisHash otherHash, \<sigma>2)))"

section \<open>Vocabulary of the properties\<close>

text \<open>
  The definitions of this section are not code of the repository: they name what the
  specification talks about, so that the properties below can be stated.
\<close>

text \<open>
  The distance of two decoded histograms: the sum over all buckets of the absolute
  difference of the two counts. A decoded count is the value of one byte.
\<close>

definition bucketDistance :: "byte list \<Rightarrow> byte list \<Rightarrow> nat" where
  "bucketDistance as bs = (\<Sum>(a, b) \<leftarrow> zip as bs. nat \<bar>int (unat a) - int (unat b)\<bar>)"

text \<open>
  What the code relies on from zlib and the base64 codec: decoding and decompressing an
  encoded, compressed buffer gives the buffer back.
\<close>

definition codecLaw :: "runtime \<Rightarrow> bool" where
  "codecLaw N = (\<forall>bs. gunzipSync N (fromBase64 N (toBase64 N (gzipSync N bs))) = Some bs)"

text \<open>
  The feature tokens of section 4.1 of the specification, in its order: for an action
  the type tag, then the ingredient name, container name, temperature value and duration
  value of the fields that are present; for a cue and for a sensory check the type tag and
  the description; for a step its actions, cues and checks, then its parallel child steps.
\<close>

definition actionTokens :: "action \<Rightarrow> jsval list" where
  "actionTokens a =
     action_type a #
     (case ingredient a of None \<Rightarrow> [] | Some e \<Rightarrow> [Str (name e)]) @
     (case container a of None \<Rightarrow> [] | Some e \<Rightarrow> [Str (name e)]) @
     (case temperature a of None \<Rightarrow> [] | Some t \<Rightarrow> [mvalue t]) @
     (case duration a of None \<Rightarrow> [] | Some d \<Rightarrow> [mvalue d])"

definition cueTokens :: "cue \<Rightarrow> jsval list" where
  "cueTokens c = [cue_type c, cue_description c]"

definition checkTokens :: "sensoryCheck \<Rightarrow> jsval list" where
  "checkTokens c = [check_type c, check_description c]"

fun stepTokens :: "step \<Rightarrow> jsval list" where
  "stepTokens (RecipeStep acts thrs cs adjs chks) =
     concat (map actionTokens acts) @ concat (map cueTokens cs) @
     concat (map checkTokens chks) @ concat (map stepTokens thrs)"

definition recipeTokens :: "recipe \<Rightarrow> jsval list" where
  "recipeTokens r = map (\<lambda>i. Str (name i)) (ingredients r) @ concat (map stepTokens (steps r))"

text \<open>Hashing a sequence of tokens, one call of \<^verbatim>\<open>_hashAttribute\<close> each.\<close>

definition hashTokens :: "runtime \<Rightarrow> jsval list \<Rightarrow> nat list \<Rightarrow> nat \<Rightarrow> nat list" where
  "hashTokens N toks buckets numBuckets =
     fold (\<lambda>v b. hashAttribute N v b numBuckets) toks buckets"

text \<open>
  A step tree with every adjustments list emptied: two steps differ only in their
  adjustments, at any depth, when this makes them equal.
\<close>

fun stripAdjustments :: "step \<Rightarrow> step" where
  "stripAdjustments (RecipeStep acts thrs cs adjs chks) =
     RecipeStep acts (map stripAdjustments thrs) cs [] chks"

text \<open>
  \<open>populatesTemperature t s s'\<close>: the step \<open>s'\<close> is the step \<open>s\<close> but for one action,
  of \<open>s\<close> itself or of a step below it, whose missing temperature is now \<open>t\<close>.
\<close>

inductive populatesTemperature :: "measurement \<Rightarrow> step \<Rightarrow> step \<Rightarrow> bool" where
  here: "i < length acts \<Longrightarrow> temperature (acts ! i) = None \<Longrightarrow>
     populatesTemperature t (RecipeStep acts thrs cs adjs chks)
       (RecipeStep (acts[i := (acts ! i)\<lparr>temperature := Some t\<rparr>]) thrs cs adjs chks)"
| below: "j < length thrs \<Longrightarrow> populatesTemperature t (thrs ! j) s' \<Longrightarrow>
     populatesTemperature t (RecipeStep acts thrs cs adjs chks)
       (RecipeStep acts (thrs[j := s']) cs adjs chks)"

text \<open>
  The base64 codec of a Node.js buffer. \<^verbatim>\<open>Buffer.from(s, 'base64')\<close> accepts the
  standard and the URL-safe alphabet, skips every other character and stops at the first
  \<^verbatim>\<open>=\<close>; four digits give three bytes, and of a last group of three or two digits the
  two bytes or the one byte that are complete.
\<close>

definition base64Value :: "char \<Rightarrow> nat option" where
  "base64Value c =
     (let n = (of_char c :: nat) in
      if 65 \<le> n \<and> n \<le> 90 then Some (n - 65)
      else if 97 \<le> n \<and> n \<le> 122 then Some (n - 71)
      else if 48 \<le> n \<and> n \<le> 57 then Some (n + 4)
      else if n = 43 \<or> n = 45 then Some 62
      else if n = 47 \<or> n = 95 then Some 63
      else None)"

definition base64Digit :: "nat \<Rightarrow> char" where
  "base64Digit d =
     (if d < 26 then char_of (65 + d)
      else if d < 52 then char_of (71 + d)
      else if d < 62 then char_of (d - 4)
      else if d = 62 then CHR ''+'' else CHR ''/'')"

fun Buffer_toString_base64 :: "byte list \<Rightarrow> string" where
  "Buffer_toString_base64 (a # b # c # rest) =
     base64Digit (unat a div 4) # base64Digit (unat a mod 4 * 16 + unat b div 16)
       # base64Digit (unat b mod 16 * 4 + unat c div 64) # base64Digit (unat c mod 64)
       # Buffer_toString_base64 rest"
| "Buffer_toString_base64 [a, b] =
     [base64Digit (unat a div 4), base64Digit (unat a mod 4 * 16 + unat b div 16),
      base64Digit (unat b mod 16 * 4), CHR ''='']"
| "Buffer_toString_base64 [a] =
     [base64Digit (unat a div 4), base64Digit (unat a mod 4 * 16), CHR ''='', CHR ''='']"
| "Buffer_toString_base64 [] = []"

fun base64Digits :: "string \<Rightarrow> nat list" where
  "base64Digits [] = []"
| "base64Digits (c # cs) =
     (if c = CHR ''='' then []
      else case base64Value c of None \<Rightarrow> base64Digits cs | Some d \<Rightarrow> d # base64Digits cs)"

fun base64Bytes :: "nat list \<Rightarrow> byte list" where
  "base64Bytes (a # b # c # d # rest) =
     of_nat (a * 4 + b div 16) # of_nat (b mod 16 * 16 + c div 4) # of_nat (c mod 4 * 64 + d)
       # base64Bytes rest"
| "base64Bytes [a, b, c] = [of_nat (a * 4 + b div 16), of_nat (b mod 16 * 16 + c div 4)]"
| "base64Bytes [a, b] = [of_nat (a * 4 + b div 16)]"
| "base64Bytes _ = []"

definition Buffer_from_base64 :: "string \<Rightarrow> byte list" where
  "Buffer_from_base64 s = base64Bytes (base64Digits s)"

text \<open>
  A string is base64 text when its length is a multiple of four and it is made of
  digits of the alphabet, followed by at most two \<^verbatim>\<open>=\<close>.
\<close>

definition validBase64 :: "string \<Rightarrow> bool" where
  "validBase64 s =
     (length s mod 4 = 0
      \<and> list_all (\<lambda>c. base64Value c \<noteq> None) (takeWhile (\<lambda>c. c \<noteq> CHR ''='') s)
      \<and> length (dropWhile (\<lambda>c. c \<noteq> CHR ''='') s) \<le> 2
      \<and> list_all (\<lambda>c. c = CHR ''='') (dropWhile (\<lambda>c. c \<noteq> CHR ''='') s))"

subsection \<open>A runtime and a recipe to evaluate the model on\<close>

text \<open>
  A small instance of the runtime: the digest of a string carries its length in the top
  32 bits, compression puts the two gzip magic bytes in front of the payload, and the
  text encoding is hex. It obeys \<open>codecLaw\<close>.
\<close>

definition sampleRuntime :: runtime where
  "sampleRuntime =
     \<lparr>md5 = (\<lambda>s. push_bit 96 (of_nat (length s))),
      toLowerCase = (\<lambda>s. s),
      numberToString = (\<lambda>q. ''0''),
      gzipSync = (\<lambda>bs. 31 # 139 # bs),
      gunzipSync = (\<lambda>bs. case bs of
                            a # b # rest \<Rightarrow> if a = 31 \<and> b = 139 then Some rest else None
                          | _ \<Rightarrow> None),
      toBase64 = Buffer_toString_hex,
      fromBase64 = Buffer_from_hex\<rparr>"

text \<open>The recipe of \<^verbatim>\<open>examples/latte_caffe.js\<close>.\<close>

definition tazza :: entity where
  "tazza = \<lparr>name = ''Tazza'', amount = None\<rparr>"

definition latte :: entity where
  "latte = \<lparr>name = ''Latte'', amount = Some 1\<rparr>"

definition espresso :: entity where
  "espresso = \<lparr>name = ''Espresso'', amount = Some 1\<rparr>"

definition sugar :: entity where
  "sugar = \<lparr>name = ''Sugar'', amount = Some 1\<rparr>"

definition spoon :: entity where
  "spoon = \<lparr>name = ''Spoon'', amount = None\<rparr>"

definition heatAction :: action where
  "heatAction = \<lparr>action_type = Str ''heat'', ingredient = None, container = None,
     temperature = None, duration = Some \<lparr>mvalue = Num 1, munit = ''minutes''\<rparr>\<rparr>"

definition step1 :: step where
  "step1 = RecipeStep
     [\<lparr>action_type = Str ''add'', ingredient = Some latte, container = Some tazza,
       temperature = None, duration = None\<rparr>,
      \<lparr>action_type = Str ''mix'', ingredient = None, container = Some tazza,
       temperature = None, duration = None\<rparr>] [] [] [] []"

definition step2 :: step where
  "step2 = RecipeStep [heatAction] [] [] [] []"

definition latteCaffe :: recipe where
  "latteCaffe = Recipe_create ''Latte Caffe'' [latte, espresso, sugar] [spoon] []
     [step1, step2] 1 ''very easy'' [''beverage'', ''Italian'', ''breakfast'']"

text \<open>A recipe with 256 ingredients of one name.\<close>

definition manyIngredients :: recipe where
  "manyIngredients = Recipe_create ''many'' (replicate 256 latte) [] [] [] 1 ''medium'' []"

text \<open>The recipe object after \<^verbatim>\<open>cook(1)\<close> under the sample runtime.\<close>

definition latteCooked1 :: recipe where
  "latteCooked1 = snd (cook sampleRuntime latteCaffe 1)"

text \<open>The recipe object after \<^verbatim>\<open>cook(0)\<close> under the sample runtime.\<close>

definition latteCooked0 :: recipe where
  "latteCooked0 = snd (cook sampleRuntime latteCaffe 0)"

text \<open>
  The recipe of the example with an adjustment added to its second step, and the same
  recipe with the temperature of the heating action set to \<^verbatim>\<open>StoveHeat.MEDIUM\<close>.
\<close>

definition latteAdjusted :: recipe where
  "latteAdjusted = latteCaffe\<lparr>steps :=
     [step1, RecipeStep [heatAction] [] []
        [\<lparr>adj_condition = Str ''too hot'', adj_action = Str ''lower the heat''\<rparr>] []]\<rparr>"

definition mediumHeat :: measurement where
  "mediumHeat = \<lparr>mvalue = Num 3, munit = ''level''\<rparr>"

definition step2Heated :: step where
  "step2Heated = RecipeStep [heatAction\<lparr>temperature := Some mediumHeat\<rparr>] [] [] [] []"

text \<open>The recipe object after \<^verbatim>\<open>cook(3)\<close> under the sample runtime.\<close>

definition latteCooked3 :: recipe where
  "latteCooked3 = snd (cook sampleRuntime latteCaffe 3)"

text \<open>
  The sample runtime with the base64 codec of Node.js for the text encoding, and the
  recipe object after \<^verbatim>\<open>cook(1)\<close> under it: its hash is \<^verbatim>\<open>H4sK\<close>.
\<close>

definition base64Runtime :: runtime where
  "base64Runtime =
     sampleRuntime\<lparr>toBase64 := Buffer_toString_base64, fromBase64 := Buffer_from_base64\<rparr>"

definition latteBase64 :: recipe where
  "latteBase64 = snd (cook base64Runtime latteCaffe 1)"

section \<open>Auxiliary facts\<close>

subsection \<open>Rounding to a double\<close>

lemma roundTiesToEven_of_int [simp]: "roundTiesToEven (of_int k) = k"
  by (simp add: roundTiesToEven_def)

lemma roundTiesToEven_ge: "of_int k \<le> x \<Longrightarrow> k \<le> roundTiesToEven x"
proof -
  assume "of_int k \<le> x"
  then have "k \<le> \<lfloor>x\<rfloor>" by (simp add: le_floor_iff)
  then show ?thesis by (auto simp: roundTiesToEven_def Let_def)
qed

lemma roundTiesToEven_le: "x \<le> of_int k \<Longrightarrow> roundTiesToEven x \<le> k"
proof -
  assume x: "x \<le> of_int k"
  show ?thesis
  proof (cases "x = of_int k")
    case True
    then show ?thesis by simp
  next
    case False
    with x have "x < of_int k" by simp
    then have "\<lfloor>x\<rfloor> < k" by (simp add: floor_less_iff)
    then show ?thesis by (auto simp: roundTiesToEven_def Let_def)
  qed
qed

lemma binade_bounds:
  assumes "x \<noteq> 0"
  shows "2 powi binade x \<le> \<bar>x\<bar>" and "\<bar>x\<bar> < 2 powi (binade x + 1)"
proof -
  have "2 powi binade x \<le> \<bar>x\<bar> \<and> \<bar>x\<bar> < 2 powi (binade x + 1)"
  proof (cases "1 \<le> \<bar>x\<bar>")
    case True
    let ?n = "\<lfloor>\<bar>x\<bar>\<rfloor>"
    have n: "0 < ?n" using True by simp
    have b1: "1 \<le> bitlen ?n" using n bitlen_eq_zero_iff [of ?n] bitlen_nonneg [of ?n] by linarith
    from bitlen_bounds [OF n]
    have lo: "2 ^ nat (bitlen ?n - 1) \<le> ?n" and hi: "?n < 2 ^ nat (bitlen ?n)" by simp_all
    have e: "binade x = int (nat (bitlen ?n - 1))" using True b1 by (simp add: binade_def)
    have e1: "binade x + 1 = int (nat (bitlen ?n))" using True b1 by (simp add: binade_def)
    have "(of_int (2 ^ nat (bitlen ?n - 1)) :: rat) \<le> of_int ?n"
      using lo by (simp only: of_int_le_iff)
    also have "\<dots> \<le> \<bar>x\<bar>" by simp
    finally have "(2::rat) ^ nat (bitlen ?n - 1) \<le> \<bar>x\<bar>" by simp
    moreover have "(2::rat) powi binade x = 2 ^ nat (bitlen ?n - 1)"
      by (simp only: e power_int_of_nat)
    ultimately have 1: "2 powi binade x \<le> \<bar>x\<bar>" by simp
    have "?n + 1 \<le> 2 ^ nat (bitlen ?n)" using hi by simp
    then have "(of_int (?n + 1) :: rat) \<le> of_int (2 ^ nat (bitlen ?n))"
      by (simp only: of_int_le_iff)
    moreover have "\<bar>x\<bar> < of_int (?n + 1)" by linarith
    ultimately have "\<bar>x\<bar> < 2 ^ nat (bitlen ?n)" by simp
    moreover have "(2::rat) powi (binade x + 1) = 2 ^ nat (bitlen ?n)"
      by (simp only: e1 power_int_of_nat)
    ultimately have 2: "\<bar>x\<bar> < 2 powi (binade x + 1)" by simp
    from 1 2 show ?thesis by simp
  next
    case False
    let ?y = "1 / \<bar>x\<bar>"
    let ?m = "\<lceil>?y\<rceil> - 1"
    have xpos: "0 < \<bar>x\<bar>" using assms by simp
    have y1: "1 < ?y" using False xpos by (simp add: less_divide_eq)
    then have m: "0 < ?m" by (simp add: less_ceiling_iff)
    have b1: "1 \<le> bitlen ?m" using m bitlen_eq_zero_iff [of ?m] bitlen_nonneg [of ?m] by linarith
    from bitlen_bounds [OF m]
    have lo: "2 ^ nat (bitlen ?m - 1) \<le> ?m" and hi: "?m < 2 ^ nat (bitlen ?m)" by simp_all
    let ?j = "nat (bitlen ?m)"
    have j: "bitlen ?m = int ?j" using b1 by simp
    have e: "binade x = - int ?j" using False j by (simp add: binade_def)
    have "\<lceil>?y\<rceil> \<le> 2 ^ ?j" using hi by simp
    then have "(of_int \<lceil>?y\<rceil> :: rat) \<le> of_int (2 ^ ?j)" by (simp only: of_int_le_iff)
    with le_of_int_ceiling [of ?y] have "?y \<le> of_int (2 ^ ?j)" by (rule order_trans)
    then have "?y \<le> 2 ^ ?j" by simp
    then have "1 \<le> 2 ^ ?j * \<bar>x\<bar>" using xpos by (simp add: divide_le_eq)
    moreover have "(2::rat) powi binade x = 1 / 2 ^ ?j"
      by (simp only: e power_int_minus power_int_of_nat inverse_eq_divide)
    ultimately have 1: "2 powi binade x \<le> \<bar>x\<bar>"
      by (simp add: divide_le_eq mult.commute)
    have j1: "?j = Suc (nat (bitlen ?m - 1))" using b1 by simp
    have "(of_int (2 ^ nat (bitlen ?m - 1)) :: rat) \<le> of_int ?m"
      using lo by (simp only: of_int_le_iff)
    moreover have "of_int ?m < ?y" by linarith
    ultimately have "(of_int (2 ^ nat (bitlen ?m - 1)) :: rat) < ?y" by (rule le_less_trans)
    then have "2 ^ nat (bitlen ?m - 1) < ?y" by simp
    then have lt: "2 ^ nat (bitlen ?m - 1) * \<bar>x\<bar> < 1" using xpos by (simp add: less_divide_eq)
    have e1: "binade x + 1 = - int (nat (bitlen ?m - 1))" using e j1 by simp
    have "(2::rat) powi (binade x + 1) = 1 / 2 ^ nat (bitlen ?m - 1)"
      by (simp only: e1 power_int_minus power_int_of_nat inverse_eq_divide)
    then have 2: "\<bar>x\<bar> < 2 powi (binade x + 1)"
      using lt by (simp add: less_divide_eq mult.commute)
    from 1 2 show ?thesis by simp
  qed
  then show "2 powi binade x \<le> \<bar>x\<bar>" and "\<bar>x\<bar> < 2 powi (binade x + 1)" by simp_all
qed


lemma powi2_less_D: "(2::rat) powi m < 2 powi n \<Longrightarrow> m < n"
proof (rule ccontr)
  assume lt: "(2::rat) powi m < 2 powi n" and "\<not> m < n"
  then have "n \<le> m" by simp
  then have "(2::rat) powi n \<le> 2 powi m" by (rule power_int_increasing) simp
  with lt show False by simp
qed

lemma binade_less: "x \<noteq> 0 \<Longrightarrow> \<bar>x\<bar> < 2 powi n \<Longrightarrow> binade x < n"
  using binade_bounds(1) [of x] by (intro powi2_less_D) simp

lemma binade_ge: "x \<noteq> 0 \<Longrightarrow> 2 powi n \<le> \<bar>x\<bar> \<Longrightarrow> n \<le> binade x"
proof -
  assume "x \<noteq> 0" and "2 powi n \<le> \<bar>x\<bar>"
  with binade_bounds(2) [of x] have "(2::rat) powi n < 2 powi (binade x + 1)" by simp
  then have "n < binade x + 1" by (rule powi2_less_D)
  then show ?thesis by simp
qed

lemma roundToDouble_of_int:
  assumes "\<bar>k\<bar> < 2 ^ 53"
  shows "roundToDouble (of_int k) = of_int k"
proof (cases "k = 0")
  case True
  then show ?thesis by (simp add: roundToDouble_def)
next
  case False
  let ?x = "of_int k :: rat"
  have x: "?x \<noteq> 0" using False by simp
  have "\<bar>?x\<bar> < of_int (2 ^ 53)"
    using assms by (simp only: of_int_abs [symmetric] of_int_less_iff)
  then have "\<bar>?x\<bar> < 2 powi 53" by simp
  then have hi: "binade ?x < 53" by (rule binade_less [OF x])
  have "1 \<le> \<bar>k\<bar>" using False by simp
  then have "(of_int 1 :: rat) \<le> of_int \<bar>k\<bar>" by (simp only: of_int_le_iff)
  then have "2 powi 0 \<le> \<bar>?x\<bar>" by simp
  then have lo: "0 \<le> binade ?x" by (rule binade_ge [OF x])
  define s where "s = nat (52 - binade ?x)"
  have e: "max (binade ?x - 52) (- 1074) = - int s"
    using lo hi by (simp add: s_def)
  have u: "(2::rat) powi max (binade ?x - 52) (- 1074) = 1 / 2 ^ s"
    by (simp only: e power_int_minus power_int_of_nat inverse_eq_divide)
  have "?x / (1 / 2 ^ s) = of_int (k * 2 ^ s)" by simp
  then have "roundTiesToEven (?x / (1 / 2 ^ s)) = k * 2 ^ s"
    by (simp only: roundTiesToEven_of_int)
  then show ?thesis
    using x by (simp add: roundToDouble_def Let_def u)
qed

lemma roundToDouble_of_nat: "n < 2 ^ 53 \<Longrightarrow> roundToDouble (of_nat n) = of_nat n"
  using roundToDouble_of_int [of "int n"] by simp

lemma roundToDouble_pos:
  assumes "0 < x" and "- 1022 \<le> binade x"
  shows "2 powi binade x \<le> roundToDouble x"
proof -
  let ?e = "binade x"
  let ?u = "(2::rat) powi (?e - 52)"
  have x: "x \<noteq> 0" using assms(1) by simp
  have m: "max (?e - 52) (- 1074) = ?e - 52" using assms(2) by simp
  have upos: "0 < ?u" by simp
  have split: "(2::rat) powi ?e = 2 powi 52 * ?u"
    using power_int_add [of "2::rat" 52 "?e - 52"] by simp
  have "2 powi ?e \<le> x" using binade_bounds(1) [OF x] assms(1) by simp
  then have "of_int (2 ^ 52) \<le> x / ?u"
    using upos by (simp add: le_divide_eq split)
  then have "2 ^ 52 \<le> roundTiesToEven (x / ?u)" by (rule roundTiesToEven_ge)
  then have "(of_int (2 ^ 52) :: rat) \<le> of_int (roundTiesToEven (x / ?u))"
    by (simp only: of_int_le_iff)
  then have "of_int (2 ^ 52) * ?u \<le> of_int (roundTiesToEven (x / ?u)) * ?u"
    using upos by (rule mult_right_mono [OF _ less_imp_le])
  then show ?thesis
    using x by (simp add: roundToDouble_def Let_def m split)
qed

lemma roundToDouble_neg:
  assumes "x < 0" and "- 1022 \<le> binade x"
  shows "roundToDouble x \<le> - (2 powi binade x)"
proof -
  let ?e = "binade x"
  let ?u = "(2::rat) powi (?e - 52)"
  have x: "x \<noteq> 0" using assms(1) by simp
  have m: "max (?e - 52) (- 1074) = ?e - 52" using assms(2) by simp
  have upos: "0 < ?u" by simp
  have split: "(2::rat) powi ?e = 2 powi 52 * ?u"
    using power_int_add [of "2::rat" 52 "?e - 52"] by simp
  have "2 powi ?e \<le> - x" using binade_bounds(1) [OF x] assms(1) by simp
  then have "x \<le> - (2 powi 52 * ?u)" by (simp add: split)
  then have "x / ?u \<le> of_int (- (2 ^ 52))"
    using upos by (simp add: divide_le_eq)
  then have "roundTiesToEven (x / ?u) \<le> - (2 ^ 52)" by (rule roundTiesToEven_le)
  then have "(of_int (roundTiesToEven (x / ?u)) :: rat) \<le> of_int (- (2 ^ 52))"
    by (simp only: of_int_le_iff)
  then have "of_int (roundTiesToEven (x / ?u)) * ?u \<le> of_int (- (2 ^ 52)) * ?u"
    using upos by (rule mult_right_mono [OF _ less_imp_le])
  then show ?thesis
    using x by (simp add: roundToDouble_def Let_def m split)
qed

lemma roundTiesToEven_gt_half: "of_int k + 1 / 2 < x \<Longrightarrow> k + 1 \<le> roundTiesToEven x"
proof -
  assume h: "of_int k + 1 / 2 < x"
  then have "of_int k \<le> x" by simp
  then have f: "k \<le> \<lfloor>x\<rfloor>" by (simp add: le_floor_iff)
  show ?thesis
  proof (cases "k = \<lfloor>x\<rfloor>")
    case True
    with h have "1 / 2 < x - of_int \<lfloor>x\<rfloor>" by simp
    then show ?thesis using True by (simp add: roundTiesToEven_def Let_def)
  next
    case False
    with f have "k + 1 \<le> \<lfloor>x\<rfloor>" by simp
    then show ?thesis by (auto simp: roundTiesToEven_def Let_def)
  qed
qed

lemma roundToDouble_ge_1:
  assumes "1 \<le> x"
  shows "1 \<le> roundToDouble x"
proof -
  have x: "x \<noteq> 0" "0 < x" using assms by simp_all
  have "2 powi 0 \<le> \<bar>x\<bar>" using assms by simp
  then have e: "0 \<le> binade x" by (rule binade_ge [OF x(1)])
  then have "(2::rat) powi 0 \<le> 2 powi binade x" by (rule power_int_increasing) simp
  moreover have "2 powi binade x \<le> roundToDouble x"
    using x(2) e by (intro roundToDouble_pos) simp_all
  ultimately show ?thesis by simp
qed

text \<open>
  The score is negative when the distance exceeds the denominator: the quotient rounds
  to a double above 1, and the difference to a double below 0.
\<close>

lemma score_negative:
  assumes "0 < M" and "M < 2 ^ 53" and "M < D"
  shows "roundToDouble (1 - roundToDouble (of_nat D / of_nat M)) < 0"
proof -
  let ?q = "of_nat D / of_nat M :: rat"
  have Mpos: "(0::rat) < of_nat M" using assms(1) by simp
  have q1: "1 < ?q" using assms(1,3) by (simp add: less_divide_eq)
  have qpos: "0 < ?q" using q1 by (rule less_trans [OF zero_less_one])
  have qne: "?q \<noteq> 0" using qpos by (metis less_irrefl)
  note q0 = qne qpos
  have "2 powi 0 \<le> \<bar>?q\<bar>" using q1 by simp
  then have e0: "0 \<le> binade ?q" by (rule binade_ge [OF q0(1)])
  have above: "1 + 1 / 2 ^ 52 \<le> roundToDouble ?q"
  proof (cases "binade ?q = 0")
    case True
    have u: "max (binade ?q - 52) (- 1074) = - int 52" using True by simp
    have up: "(2::rat) powi max (binade ?q - 52) (- 1074) = 1 / 2 ^ 52"
      by (simp only: u power_int_minus power_int_of_nat inverse_eq_divide)
    have "Suc M \<le> D" using assms(3) by simp
    then have "(of_nat (Suc M) :: rat) \<le> of_nat D" by (simp only: of_nat_le_iff)
    then have "(of_nat M + 1) / of_nat M \<le> ?q"
      using Mpos by (simp add: divide_right_mono)
    then have a: "1 + 1 / of_nat M \<le> ?q"
      using Mpos by (simp add: add_divide_distrib)
    have "(of_nat M :: rat) < of_nat (2 ^ 53)" using assms(2) by (simp only: of_nat_less_iff)
    then have "(of_nat M :: rat) < 2 * 2 ^ 52" by simp
    then have half: "(1 / 2 :: rat) < 2 ^ 52 / of_nat M"
      using Mpos by (simp add: less_divide_eq)
    have expand: "(1 + 1 / of_nat M) * (2 ^ 52 :: rat) = of_int (2 ^ 52) + 2 ^ 52 / of_nat M"
      by (simp add: distrib_right)
    have "(of_int (2 ^ 52) :: rat) + 1 / 2 < (1 + 1 / of_nat M) * 2 ^ 52"
      unfolding expand using half by (rule add_strict_left_mono)
    also have "\<dots> \<le> ?q * 2 ^ 52" using a by (rule mult_right_mono) simp
    finally have "(of_int (2 ^ 52) :: rat) + 1 / 2 < ?q / (1 / 2 ^ 52)" by simp
    then have "2 ^ 52 + 1 \<le> roundTiesToEven (?q / (1 / 2 ^ 52))"
      by (rule roundTiesToEven_gt_half)
    then have "(of_int (2 ^ 52 + 1) :: rat) \<le> of_int (roundTiesToEven (?q / (1 / 2 ^ 52)))"
      by (simp only: of_int_le_iff)
    then have "(of_int (2 ^ 52 + 1) :: rat) * (1 / 2 ^ 52)
        \<le> of_int (roundTiesToEven (?q / (1 / 2 ^ 52))) * (1 / 2 ^ 52)"
      by (rule mult_right_mono) simp
    moreover have "roundToDouble ?q = of_int (roundTiesToEven (?q / (1 / 2 ^ 52))) * (1 / 2 ^ 52)"
      using q0(1) by (simp only: roundToDouble_def Let_def up if_False)
    ultimately show ?thesis by (simp add: add_divide_distrib)
  next
    case False
    with e0 have "1 \<le> binade ?q" by simp
    then have "(2::rat) powi 1 \<le> 2 powi binade ?q" by (rule power_int_increasing) simp
    moreover have "2 powi binade ?q \<le> roundToDouble ?q"
      using q0(2) e0 by (intro roundToDouble_pos) simp_all
    ultimately have "2 \<le> roundToDouble ?q" by simp
    then show ?thesis by simp
  qed
  let ?y = "1 - roundToDouble ?q"
  have y: "?y \<le> - (1 / 2 ^ 52)" using above by simp
  then have yneg: "?y < 0" "?y \<noteq> 0" by (simp_all add: less_le_trans [where y = "- (1 / 2 ^ 52)"] order.strict_implies_not_eq)
  have "(2::rat) powi (- 52) = 1 / 2 ^ 52"
    using power_int_minus [of "2::rat" "int 52"] by (simp add: inverse_eq_divide)
  with y yneg(1) have "2 powi (- 52) \<le> \<bar>?y\<bar>" by simp
  then have e: "- 52 \<le> binade ?y" by (rule binade_ge [OF yneg(2)])
  have le: "roundToDouble ?y \<le> - (2 powi binade ?y)"
    using yneg(1) e by (intro roundToDouble_neg) simp_all
  have "(0::rat) < 2 powi binade ?y" by simp
  then have "- (2 powi binade ?y) < (0::rat)" by (simp only: neg_less_0_iff_less)
  with le show ?thesis by (rule le_less_trans)
qed

subsection \<open>Hex strings and buffers\<close>

lemma hexValue_hexDigit: "d < 16 \<Longrightarrow> hexValue (hexDigit d) = Some d"
  by (auto simp: hexValue_def hexDigit_def Let_def)

lemma length_byte_hex: "length (byte_hex b) = 2"
  by (simp add: byte_hex_def)

lemma byte_nibbles: "unat (b :: byte) div 16 < 16" "unat b mod 16 < 16"
  using unsigned_less [of b] by (simp_all add: div_less_iff_less_mult)

lemma Buffer_from_hex_byte_hex: "Buffer_from_hex (byte_hex b @ s) = b # Buffer_from_hex s"
  by (simp add: byte_hex_def hexValue_hexDigit byte_nibbles)

lemma Buffer_from_hex_toString: "Buffer_from_hex (Buffer_toString_hex bs) = bs"
  by (induction bs) (simp_all add: Buffer_toString_hex_def Buffer_from_hex_byte_hex)

lemma length_Buffer_toString_hex: "length (Buffer_toString_hex bs) = 2 * length bs"
  by (induction bs) (simp_all add: Buffer_toString_hex_def length_byte_hex)

lemma pad_toString16:
  assumes c: "c < 256"
  shows "padStart (toString16 c) 2 CHR ''0'' = byte_hex (of_nat c)"
proof -
  have u: "unat (of_nat c :: byte) = c"
    using c by (simp add: unat_of_nat)
  have z: "hexDigit 0 = CHR ''0''" by code_simp
  show ?thesis
  proof (cases "c < 16")
    case True
    then show ?thesis
      by (simp add: padStart_def toString16.simps [of c] byte_hex_def u z)
  next
    case False
    with c have "c div 16 < 16" by simp
    with False show ?thesis
      by (simp add: padStart_def toString16.simps [of c] toString16.simps [of "c div 16"]
          byte_hex_def u)
  qed
qed

lemma hexString_small:
  "\<forall>c \<in> set H. c < 256 \<Longrightarrow> hexString H = Buffer_toString_hex (map of_nat H)"
  by (induction H) (simp_all add: hexString_def Buffer_toString_hex_def pad_toString16)

lemma parseInt16_byte_hex: "parseInt16 (byte_hex b) = Some (unat b)"
  by (simp add: parseInt16_def byte_hex_def hexValue_hexDigit byte_nibbles)

lemma substr_hex:
  "k < length bs \<Longrightarrow> substr (Buffer_toString_hex bs) (2 * k) 2 = byte_hex (bs ! k)"
proof (induction bs arbitrary: k)
  case Nil
  then show ?case by simp
next
  case (Cons b bs)
  show ?case
  proof (cases k)
    case 0
    then show ?thesis
      by (simp add: substr_def Buffer_toString_hex_def length_byte_hex)
  next
    case (Suc j)
    with Cons.prems have "j < length bs" by simp
    from Cons.IH [OF this] Suc show ?thesis
      by (simp add: substr_def Buffer_toString_hex_def length_byte_hex)
  qed
qed

subsection \<open>The distance loop\<close>

lemma bucketDistance_self: "bucketDistance bs bs = 0"
  by (induction bs) (simp_all add: bucketDistance_def)

lemma bucketDistance_le:
  "length as = length bs \<Longrightarrow> bucketDistance as bs \<le> 255 * length as"
proof (induction as bs rule: list_induct2)
  case Nil
  then show ?case by (simp add: bucketDistance_def)
next
  case (Cons a as b bs)
  have "unat a < 256" "unat b < 256"
    using unsigned_less [of a] unsigned_less [of b] by simp_all
  then have "nat \<bar>int (unat a) - int (unat b)\<bar> \<le> 255" by linarith
  with Cons.IH show ?case by (simp add: bucketDistance_def)
qed

lemma distanceLoop_hex:
  assumes "length as = length bs" and "k \<le> length as"
    and "acc + bucketDistance (drop k as) (drop k bs) < 2 ^ 53"
  shows "distanceLoop (Buffer_toString_hex as) (Buffer_toString_hex bs) (2 * k) (Some (of_nat acc))
    = Some (of_nat (acc + bucketDistance (drop k as) (drop k bs)))"
  using assms
proof (induction "length as - k" arbitrary: k acc)
  case 0
  then show ?case
    by (subst distanceLoop.simps) (simp add: length_Buffer_toString_hex bucketDistance_def)
next
  case (Suc n)
  then have k: "k < length as" "k < length bs" by simp_all
  let ?d = "nat \<bar>int (unat (as ! k)) - int (unat (bs ! k))\<bar>"
  have da: "drop k as = as ! k # drop (Suc k) as" and db: "drop k bs = bs ! k # drop (Suc k) bs"
    using k by (simp_all add: Cons_nth_drop_Suc)
  have total: "bucketDistance (drop k as) (drop k bs)
      = ?d + bucketDistance (drop (Suc k) as) (drop (Suc k) bs)"
    by (simp add: da db bucketDistance_def)
  have n: "n = length as - Suc k" using Suc.hyps(2) by simp
  have small: "acc + ?d < 2 ^ 53" and rest: "(acc + ?d)
      + bucketDistance (drop (Suc k) as) (drop (Suc k) bs) < 2 ^ 53"
    using Suc.prems(3) total by simp_all
  have "(of_nat acc :: rat) + of_int \<bar>int (unat (as ! k)) - int (unat (bs ! k))\<bar> = of_nat (acc + ?d)"
    by simp
  then have step: "roundToDouble (of_nat acc + of_int \<bar>int (unat (as ! k)) - int (unat (bs ! k))\<bar>)
      = of_nat (acc + ?d)"
    using roundToDouble_of_nat [OF small] by (simp only:)
  have "distanceLoop (Buffer_toString_hex as) (Buffer_toString_hex bs) (2 * k) (Some (of_nat acc))
    = distanceLoop (Buffer_toString_hex as) (Buffer_toString_hex bs) (2 * Suc k)
        (Some (of_nat (acc + ?d)))"
    using k step
    by (subst distanceLoop.simps)
      (simp add: length_Buffer_toString_hex substr_hex parseInt16_byte_hex)
  also have "\<dots> = Some (of_nat ((acc + ?d)
      + bucketDistance (drop (Suc k) as) (drop (Suc k) bs)))"
    using k by (intro Suc.hyps(1) [OF n Suc.prems(1) _ rest]) simp
  finally show ?case
    by (simp only: total add.assoc)
qed

lemma compareHashes_hex:
  assumes "length as = length bs" and "255 * length as < 2 ^ 53"
  shows "compareHashes (Buffer_toString_hex as) (Buffer_toString_hex bs)
    = Inr (if as = [] then NaN
           else Finite (roundToDouble
             (1 - roundToDouble (of_nat (bucketDistance as bs) / (16 * of_nat (length as))))))"
proof -
  have D: "bucketDistance as bs < 2 ^ 53"
    using bucketDistance_le [OF assms(1)] assms(2) by simp
  have loop: "distanceLoop (Buffer_toString_hex as) (Buffer_toString_hex bs) 0 (Some 0)
      = Some (of_nat (bucketDistance as bs))"
    using distanceLoop_hex [OF assms(1), of 0 0] D by simp
  have N: "length as < 2 ^ 53" "16 * length as < 2 ^ 53" using assms(2) by simp_all
  have "(of_nat (length (Buffer_toString_hex as)) / 2 :: rat) = of_nat (length as)"
    by (simp add: length_Buffer_toString_hex)
  then have tb: "roundToDouble (of_nat (length (Buffer_toString_hex as)) / 2) = of_nat (length as)"
    using roundToDouble_of_nat [OF N(1)] by (simp only:)
  have "(16 * of_nat (length as) :: rat) = of_nat (16 * length as)" by simp
  then have den: "roundToDouble (16 * of_nat (length as)) = 16 * of_nat (length as)"
    using roundToDouble_of_nat [OF N(2)] by (simp only:)
  have nl: "(length (Buffer_toString_hex as) \<noteq> length (Buffer_toString_hex bs)) = False"
    using assms(1) by (simp add: length_Buffer_toString_hex)
  have eq: "compareHashes (Buffer_toString_hex as) (Buffer_toString_hex bs)
      = (if 16 * (of_nat (length as) :: rat) = 0 then Inr NaN
         else Inr (Finite (roundToDouble
           (1 - roundToDouble (of_nat (bucketDistance as bs) / (16 * of_nat (length as)))))))"
    by (simp only: compareHashes_def Let_def nl if_False loop tb den option.case)
  show ?thesis by (simp add: eq)
qed

lemma compareHashes_self:
  "compareHashes (Buffer_toString_hex bs) (Buffer_toString_hex bs)
     = Inr (if bs = [] then NaN else Finite 1)"
proof -
  have "distanceLoop (Buffer_toString_hex bs) (Buffer_toString_hex bs) (2 * 0) (Some (of_nat 0))
      = Some (of_nat (0 + bucketDistance (drop 0 bs) (drop 0 bs)))"
    by (rule distanceLoop_hex) (simp_all add: bucketDistance_self)
  then have loop: "distanceLoop (Buffer_toString_hex bs) (Buffer_toString_hex bs) 0 (Some 0) = Some 0"
    by (simp add: bucketDistance_self)
  have z: "roundToDouble 0 = 0" by (simp add: roundToDouble_def)
  have one: "roundToDouble 1 = 1" using roundToDouble_of_int [of 1] by simp
  show ?thesis
  proof (cases "bs = []")
    case True
    have "distanceLoop [] [] 0 (Some 0) = Some 0"
      by (subst distanceLoop.simps) simp
    with True show ?thesis
      by (simp add: compareHashes_def Let_def z Buffer_toString_hex_def)
  next
    case False
    then have "(1::rat) \<le> of_nat (length bs)" by (cases bs) simp_all
    then have "1 \<le> roundToDouble (of_nat (length bs))" by (rule roundToDouble_ge_1)
    then have "1 \<le> 16 * roundToDouble (of_nat (length bs))" by simp
    then have "1 \<le> roundToDouble (16 * roundToDouble (of_nat (length bs)))"
      by (rule roundToDouble_ge_1)
    then have "roundToDouble (16 * roundToDouble (of_nat (length bs))) \<noteq> 0" by simp
    with False show ?thesis
      by (simp add: compareHashes_def Let_def loop z one length_Buffer_toString_hex)
  qed
qed

subsection \<open>Hashing is a fold of bucket increments over the tokens\<close>

lemma hashTokens_Nil [simp]: "hashTokens N [] b n = b"
  by (simp add: hashTokens_def)

lemma hashTokens_Cons [simp]:
  "hashTokens N (v # vs) b n = hashTokens N vs (hashAttribute N v b n) n"
  by (simp add: hashTokens_def)

lemma hashTokens_append [simp]:
  "hashTokens N (xs @ ys) b n = hashTokens N ys (hashTokens N xs b n) n"
  by (simp add: hashTokens_def)

lemma hashTokens_concat:
  "hashTokens N (concat (map f xs)) b n = fold (\<lambda>x b. hashTokens N (f x) b n) xs b"
  by (induction xs arbitrary: b) simp_all

lemma hashAction_tokens: "hashAction N a b n = hashTokens N (actionTokens a) b n"
  by (simp add: hashAction_def actionTokens_def Let_def split: option.splits)

lemma hashCue_tokens: "hashCue N c b n = hashTokens N (cueTokens c) b n"
  by (simp add: hashCue_def cueTokens_def)

lemma hashCheck_tokens: "hashCheck N c b n = hashTokens N (checkTokens c) b n"
  by (simp add: hashCheck_def checkTokens_def)

lemma hashStep_tokens: "hashStep N s b n = hashTokens N (stepTokens s) b n"
proof (induction s arbitrary: b)
  case (RecipeStep acts thrs cs adjs chks)
  have "fold (\<lambda>thread b. hashStep N thread b n) thrs c
      = fold (\<lambda>thread b. hashTokens N (stepTokens thread) b n) thrs c" for c
    by (rule fold_cong) (simp_all add: RecipeStep.IH)
  then show ?case
    by (simp add: hashTokens_concat hashAction_tokens hashCue_tokens hashCheck_tokens)
qed

lemma fillBuckets_tokens: "fillBuckets N r b n = hashTokens N (recipeTokens r) b n"
proof -
  have "fold (\<lambda>i b. hashIngredient N i b n) is c
      = hashTokens N (map (\<lambda>i. Str (name i)) is) c n" for "is" c
    by (induction "is" arbitrary: c) (simp_all add: hashIngredient_def hashAttribute_def)
  then show ?thesis
    by (simp add: fillBuckets_def recipeTokens_def hashTokens_concat hashStep_tokens)
qed

lemma stepTokens_strip: "stepTokens (stripAdjustments s) = stepTokens s"
proof (induction s)
  case (RecipeStep acts thrs cs adjs chks)
  have "map (stepTokens \<circ> stripAdjustments) thrs = map stepTokens thrs"
    by (rule map_cong) (simp_all add: RecipeStep.IH)
  then show ?case by (simp del: map_eq_conv)
qed

lemma length_increment [simp]: "length (increment b i) = length b"
  by (simp add: increment_def split: option.splits)

lemma length_hashAttribute [simp]: "length (hashAttribute N v b n) = length b"
  by (simp add: hashAttribute_def split: jsval.splits)

lemma length_hashTokens [simp]: "length (hashTokens N vs b n) = length b"
  by (induction vs arbitrary: b) simp_all

lemma increment_commute: "increment (increment b i) j = increment (increment b j) i"
  by (cases i; cases j) (auto simp: increment_def list_update_swap nth_list_update)

lemma hashAttribute_commute:
  "hashAttribute N v (hashAttribute N w b n) n = hashAttribute N w (hashAttribute N v b n) n"
  by (cases v; cases w) (simp_all add: hashAttribute_def increment_commute)

lemma hashTokens_commute:
  "hashTokens N vs (hashAttribute N v b n) n = hashAttribute N v (hashTokens N vs b n) n"
proof (induction vs arbitrary: b)
  case Nil
  then show ?case by simp
next
  case (Cons a vs)
  have "hashTokens N (a # vs) (hashAttribute N v b n) n
      = hashTokens N vs (hashAttribute N v (hashAttribute N a b n) n) n"
    by (simp add: hashAttribute_commute [of N a v])
  then show ?case by (simp add: Cons.IH)
qed

lemma hashTokens_insert:
  "hashTokens N (xs @ v # ys) b n = hashAttribute N v (hashTokens N (xs @ ys) b n) n"
  by (simp add: hashTokens_commute)

subsection \<open>cook and compareTo\<close>

lemma newArrayFill0_256: "newArrayFill0 256 = Inr (replicate 256 0)"
  by (simp add: newArrayFill0_def)

lemma cook_cached: "cachedHash this = Some h \<Longrightarrow> cook N this n = (Inr h, this)"
  by (simp add: cook_def)

lemma fillBuckets_hash_update [simp]:
  "fillBuckets N (this\<lparr>hash := x\<rparr>) b n = fillBuckets N this b n"
  by (simp add: fillBuckets_def)

lemma cook_again: "fst (cook N (snd (cook N this n)) n) = fst (cook N this n)"
  by (auto simp: cook_def cachedHash_def Let_def split: option.splits sum.splits)

lemma cookAt_again: "fst (cookAt N (snd (cookAt N \<sigma> r n)) r n) = fst (cookAt N \<sigma> r n)"
  using cook_again [of N "\<sigma> r" n]
  by (simp add: cookAt_def case_prod_beta)

lemma compareTo_hashes:
  assumes "fst (operandHash N \<sigma> (RecipeRef this)) = Inr s"
    and "fst (operandHash N (snd (operandHash N \<sigma> (RecipeRef this))) other) = Inr t"
  shows "fst (compareTo N \<sigma> this other) = compareHashes s t"
proof -
  obtain \<sigma>1 where 1: "operandHash N \<sigma> (RecipeRef this) = (Inr s, \<sigma>1)"
    using assms(1) by (cases "operandHash N \<sigma> (RecipeRef this)") simp
  then obtain \<sigma>2 where 2: "operandHash N \<sigma>1 other = (Inr t, \<sigma>2)"
    using assms(2) by (cases "operandHash N \<sigma>1 other") simp
  show ?thesis by (simp add: compareTo_def 1 2)
qed

lemma sample_codecLaw: "codecLaw sampleRuntime"
  by (simp add: codecLaw_def sampleRuntime_def Buffer_from_hex_toString)

lemma cook_256_succeeds: "\<exists>h. fst (cook N this 256) = Inr h"
  by (simp add: cook_def newArrayFill0_256 Let_def split: option.splits)

lemma cookAt_256_succeeds: "\<exists>h. fst (cookAt N \<sigma> r 256) = Inr h"
  using cook_256_succeeds [of N "\<sigma> r"] by (simp add: cookAt_def case_prod_beta)

lemma operandHash_RecipeRef:
  "fst (cookAt N \<sigma> r 256) = Inr h \<Longrightarrow>
     operandHash N \<sigma> (RecipeRef r) = (decompressHash N h, snd (cookAt N \<sigma> r 256))"
  by (cases "cookAt N \<sigma> r 256") (simp add: operandHash_def)

lemma decompressHash_cases:
  "decompressHash N h = Inl (Error ''Invalid hash format: unable to decompress'')
   \<or> (\<exists>bs. gunzipSync N (fromBase64 N h) = Some bs \<and> decompressHash N h = Inr (Buffer_toString_hex bs))"
  by (simp add: decompressHash_def split: option.splits)

lemma cookAt_other: "r2 \<noteq> r1 \<Longrightarrow> snd (cookAt N \<sigma> r1 n) r2 = \<sigma> r2"
  by (simp add: cookAt_def case_prod_beta)

lemma cook_content:
  assumes "ingredients r1 = ingredients r2" and "steps r1 = steps r2"
    and "cachedHash r1 = cachedHash r2"
  shows "fst (cook N r1 n) = fst (cook N r2 n)"
  using assms
  by (simp add: cook_def fillBuckets_def Let_def split: option.splits sum.splits)

lemma newArrayFill0_ok:
  "n \<in> \<int> \<Longrightarrow> 0 \<le> n \<Longrightarrow> n < 2 ^ 32 \<Longrightarrow> newArrayFill0 n = Inr (replicate (nat \<lfloor>n\<rfloor>) 0)"
  by (auto simp: newArrayFill0_def elim: Ints_cases)

lemma newArrayFill0_bad:
  "n \<notin> \<int> \<or> n < 0 \<or> 2 ^ 32 \<le> n \<Longrightarrow> newArrayFill0 n = Inl RangeError"
  by (auto simp: newArrayFill0_def)

lemma hexValue_toString16: "c \<in> set (toString16 n) \<Longrightarrow> \<exists>d. hexValue c = Some d"
proof (induction n rule: toString16.induct)
  case (1 n)
  show ?case
  proof (cases "n < 16")
    case True
    with "1.prems" show ?thesis
      by (simp add: toString16.simps [of n] hexValue_hexDigit)
  next
    case False
    with "1.prems" have "c \<in> set (toString16 (n div 16)) \<or> c = hexDigit (n mod 16)"
      by (auto simp: toString16.simps [of n])
    then show ?thesis
      using "1.IH" [OF False] by (auto simp: hexValue_hexDigit)
  qed
qed

lemma toString16_nonempty: "toString16 n \<noteq> []"
  by (simp add: toString16.simps [of n])

lemma Buffer_from_hex_hexString_nonempty:
  assumes "H \<noteq> []"
  shows "Buffer_from_hex (hexString H) \<noteq> []"
proof -
  obtain c H' where H: "H = c # H'" using assms by (cases H) auto
  let ?p = "padStart (toString16 c) 2 CHR ''0''"
  have z: "hexValue CHR ''0'' = Some 0" by code_simp
  have valid: "\<exists>d. hexValue x = Some d" if "x \<in> set ?p" for x
    using that hexValue_toString16 [of x c] z by (auto simp: padStart_def)
  have "2 \<le> length ?p"
    using toString16_nonempty [of c] by (cases "toString16 c") (auto simp: padStart_def)
  then obtain x y rest where p: "?p = x # y # rest"
    by (cases ?p; cases "tl ?p") auto
  from valid [of x] valid [of y] p obtain dx dy
    where "hexValue x = Some dx" "hexValue y = Some dy" by auto
  then show ?thesis
    by (simp add: H hexString_def p)
qed

lemma decode_encodeBuckets:
  "codecLaw N \<Longrightarrow>
     gunzipSync N (fromBase64 N (encodeBuckets N H)) = Some (Buffer_from_hex (hexString H))"
  by (simp add: codecLaw_def encodeBuckets_def)

lemma length_fillBuckets [simp]: "length (fillBuckets N r b n) = length b"
  by (simp add: fillBuckets_tokens)

lemma cookAt_fresh_256:
  "cachedHash (\<sigma> r) = None \<Longrightarrow>
     fst (cookAt N \<sigma> r 256) = Inr (encodeBuckets N (fillBuckets N (\<sigma> r) (replicate 256 0) 256))"
  by (simp add: cookAt_def cook_def newArrayFill0_256 Let_def)

lemma compareTo_self:
  assumes h: "fst (cookAt N \<sigma> this 256) = Inr h"
    and g: "gunzipSync N (fromBase64 N h) = Some bs"
  shows "fst (compareTo N \<sigma> this (RecipeRef this)) = Inr (if bs = [] then NaN else Finite 1)"
    and "fst (compareTo N \<sigma> this (HashString h)) = Inr (if bs = [] then NaN else Finite 1)"
proof -
  let ?\<sigma>1 = "snd (cookAt N \<sigma> this 256)"
  have d: "decompressHash N h = Inr (Buffer_toString_hex bs)"
    using g by (simp add: decompressHash_def)
  have 1: "operandHash N \<sigma> (RecipeRef this) = (Inr (Buffer_toString_hex bs), ?\<sigma>1)"
    using operandHash_RecipeRef [OF h] d by simp
  have "fst (cookAt N ?\<sigma>1 this 256) = Inr h"
    using cookAt_again [of N \<sigma> this 256] h by simp
  from operandHash_RecipeRef [OF this] d
  have 2: "fst (operandHash N ?\<sigma>1 (RecipeRef this)) = Inr (Buffer_toString_hex bs)"
    by simp
  have 3: "fst (operandHash N ?\<sigma>1 (HashString h)) = Inr (Buffer_toString_hex bs)"
    by (simp add: operandHash_def d)
  show "fst (compareTo N \<sigma> this (RecipeRef this)) = Inr (if bs = [] then NaN else Finite 1)"
    using compareTo_hashes [of N \<sigma> this "Buffer_toString_hex bs" "RecipeRef this"] 1 2
      compareHashes_self [of bs] by simp
  show "fst (compareTo N \<sigma> this (HashString h)) = Inr (if bs = [] then NaN else Finite 1)"
    using compareTo_hashes [of N \<sigma> this "Buffer_toString_hex bs" "HashString h"] 1 3
      compareHashes_self [of bs] by simp
qed

text \<open>
  A recipe object with no cached hash is cooked into 256 buckets by \<^verbatim>\<open>compareTo\<close> and
  compares to itself, and to its own hash, as exactly 1, under every runtime that obeys
  \<open>codecLaw\<close>.
\<close>

lemma compareTo_self_fresh:
  assumes law: "codecLaw N" and fresh: "cachedHash (\<sigma> this) = None"
  shows "fst (compareTo N \<sigma> this (RecipeRef this)) = Inr (Finite 1)"
    and "\<exists>h. fst (cookAt N \<sigma> this 256) = Inr h
          \<and> fst (compareTo N \<sigma> this (HashString h)) = Inr (Finite 1)"
proof -
  let ?H = "fillBuckets N (\<sigma> this) (replicate 256 0) 256"
  have "?H \<noteq> []" using length_fillBuckets [of N "\<sigma> this" "replicate 256 0" 256]
    by (metis length_0_conv length_replicate zero_neq_numeral)
  then have ne: "Buffer_from_hex (hexString ?H) \<noteq> []"
    by (rule Buffer_from_hex_hexString_nonempty)
  have h: "fst (cookAt N \<sigma> this 256) = Inr (encodeBuckets N ?H)"
    using fresh by (rule cookAt_fresh_256)
  from compareTo_self [OF h decode_encodeBuckets [OF law]] ne h
  show "fst (compareTo N \<sigma> this (RecipeRef this)) = Inr (Finite 1)"
    and "\<exists>h. fst (cookAt N \<sigma> this 256) = Inr h
          \<and> fst (compareTo N \<sigma> this (HashString h)) = Inr (Finite 1)"
    by simp_all
qed

text \<open>
  A recipe object that was cooked with no bucket compares to itself as NaN, under every
  runtime that obeys \<open>codecLaw\<close>.
\<close>

lemma compareTo_self_after_cook0:
  assumes "codecLaw N" and "cachedHash (\<sigma> this) = None" and "toBase64 N (gzipSync N []) \<noteq> []"
  shows "fst (compareTo N (snd (cookAt N \<sigma> this 0)) this (RecipeRef this)) = Inr NaN"
proof -
  let ?h = "toBase64 N (gzipSync N [])"
  let ?\<sigma>' = "snd (cookAt N \<sigma> this 0)"
  have n0: "newArrayFill0 0 = Inr []" by (simp add: newArrayFill0_def)
  have f: "fillBuckets N (\<sigma> this) [] 0 = []"
    by (rule length_0_conv [THEN iffD1]) simp
  have "hash (?\<sigma>' this) = Some ?h"
    using assms(2) by (simp add: cookAt_def cook_def n0 f Let_def encodeBuckets_def hexString_def)
  then have "cachedHash (?\<sigma>' this) = Some ?h"
    using assms(3) by (simp add: cachedHash_def)
  then have h: "fst (cookAt N ?\<sigma>' this 256) = Inr ?h"
    by (simp add: cookAt_def case_prod_beta cook_cached)
  have g: "gunzipSync N (fromBase64 N ?h) = Some []"
    using assms(1) by (simp add: codecLaw_def)
  from compareTo_self(1) [OF h g] show ?thesis by simp
qed

lemma hashIngredient_one_bucket: "n = 1 \<Longrightarrow> hashIngredient N i [c] n = [Suc c]"
  by (simp add: hashIngredient_def bucketIndex_def increment_def)

lemma fold_hashIngredient_one_bucket:
  "n = 1 \<Longrightarrow> fold (\<lambda>i b. hashIngredient N i b n) is [c] = [c + length is]"
  by (induction "is" arbitrary: c) (simp_all add: hashIngredient_one_bucket)

lemma fillBuckets_manyIngredients: "n = 1 \<Longrightarrow> fillBuckets N manyIngredients [0] n = [256]"
  using fold_hashIngredient_one_bucket [of n N "replicate 256 latte" 0]
  by (simp add: fillBuckets_def manyIngredients_def Recipe_create_def)

lemma hexString_256: "hexString [256] = ''100''"
  by code_simp

lemma Buffer_from_hex_100: "Buffer_from_hex ''100'' = [16]"
  by code_simp

text \<open>
  A histogram whose counts all fit two hex digits survives the encoding: its hash
  decompresses to one byte for each count, and every two characters parse back to the
  count.
\<close>

lemma roundtrip_small:
  assumes "codecLaw N" and "\<forall>c \<in> set H. c < 256"
  shows "decompressHash N (encodeBuckets N H) = Inr (Buffer_toString_hex (map of_nat H))"
    and "k < length H \<Longrightarrow>
      parseInt16 (substr (Buffer_toString_hex (map of_nat H)) (2 * k) 2) = Some (H ! k)"
proof -
  show "decompressHash N (encodeBuckets N H) = Inr (Buffer_toString_hex (map of_nat H))"
    using assms
    by (simp add: decompressHash_def codecLaw_def encodeBuckets_def hexString_small Buffer_from_hex_toString)
  show "parseInt16 (substr (Buffer_toString_hex (map of_nat H)) (2 * k) 2) = Some (H ! k)"
    if "k < length H"
  proof -
    from that assms(2) have "H ! k < 256" by simp
    then have "unat (of_nat (H ! k) :: byte) = H ! k" by (simp add: unat_of_nat)
    with that show ?thesis
      by (simp add: substr_hex parseInt16_byte_hex)
  qed
qed

lemma concat_stepTokens_strip:
  "concat (map stepTokens (map stripAdjustments ss)) = concat (map stepTokens ss)"
  by (induction ss) (simp_all add: stepTokens_strip)

lemma recipeTokens_strip:
  assumes "ingredients r1 = ingredients r2"
    and "map stripAdjustments (steps r1) = map stripAdjustments (steps r2)"
  shows "recipeTokens r1 = recipeTokens r2"
proof -
  have "concat (map stepTokens (steps r1)) = concat (map stepTokens (steps r2))"
    using concat_stepTokens_strip [of "steps r1"] concat_stepTokens_strip [of "steps r2"] assms(2)
    by simp
  with assms(1) show ?thesis by (simp add: recipeTokens_def)
qed

lemma cook_fresh:
  "cachedHash this = None \<Longrightarrow>
     fst (cook N this m) = (case newArrayFill0 m of Inl e \<Rightarrow> Inl e
        | Inr b \<Rightarrow> Inr (encodeBuckets N (fillBuckets N this b (nat \<lfloor>m\<rfloor>))))"
  by (simp add: cook_def Let_def split: sum.splits)

lemma concat_map_update_insert:
  assumes "i < length xs" and "f (xs ! i) = us @ ws" and "f x' = us @ v # ws"
  shows "\<exists>ps qs. concat (map f xs) = ps @ qs \<and> concat (map f (xs[i := x'])) = ps @ v # qs"
proof -
  let ?pre = "concat (map f (take i xs))" and ?post = "concat (map f (drop (Suc i) xs))"
  have "concat (map f xs) = (?pre @ us) @ (ws @ ?post)"
    using assms(1,2) by (subst id_take_nth_drop [OF assms(1)]) simp
  moreover have "concat (map f (xs[i := x'])) = (?pre @ us) @ v # (ws @ ?post)"
    using assms(1,3) by (simp add: upd_conv_take_nth_drop)
  ultimately show ?thesis by blast
qed

lemma actionTokens_temperature:
  assumes "temperature a = None"
  shows "\<exists>us ws. actionTokens a = us @ ws
    \<and> actionTokens (a\<lparr>temperature := Some t\<rparr>) = us @ mvalue t # ws"
proof -
  let ?us = "action_type a #
     (case ingredient a of None \<Rightarrow> [] | Some e \<Rightarrow> [Str (name e)]) @
     (case container a of None \<Rightarrow> [] | Some e \<Rightarrow> [Str (name e)])"
  let ?ws = "(case duration a of None \<Rightarrow> [] | Some d \<Rightarrow> [mvalue d])"
  have "actionTokens a = ?us @ ?ws" using assms by (simp add: actionTokens_def)
  moreover have "actionTokens (a\<lparr>temperature := Some t\<rparr>) = ?us @ mvalue t # ?ws"
    by (simp add: actionTokens_def)
  ultimately show ?thesis by blast
qed

lemma populatesTemperature_tokens:
  "populatesTemperature t s s' \<Longrightarrow>
     \<exists>ps qs. stepTokens s = ps @ qs \<and> stepTokens s' = ps @ mvalue t # qs"
proof (induction rule: populatesTemperature.induct)
  case (here i acts t thrs cs adjs chks)
  from actionTokens_temperature [OF here(2), of t] obtain us ws
    where "actionTokens (acts ! i) = us @ ws"
      and "actionTokens ((acts ! i)\<lparr>temperature := Some t\<rparr>) = us @ mvalue t # ws"
    by blast
  from concat_map_update_insert [OF here(1) this] obtain ps qs
    where "concat (map actionTokens acts) = ps @ qs"
      and "concat (map actionTokens (acts[i := (acts ! i)\<lparr>temperature := Some t\<rparr>]))
        = ps @ mvalue t # qs"
    by blast
  then have "stepTokens (RecipeStep acts thrs cs adjs chks)
        = ps @ (qs @ concat (map cueTokens cs) @ concat (map checkTokens chks)
            @ concat (map stepTokens thrs))"
    and "stepTokens (RecipeStep (acts[i := (acts ! i)\<lparr>temperature := Some t\<rparr>]) thrs cs adjs chks)
        = ps @ mvalue t # (qs @ concat (map cueTokens cs) @ concat (map checkTokens chks)
            @ concat (map stepTokens thrs))"
    by simp_all
  then show ?case by blast
next
  case (below j thrs t s' acts cs adjs chks)
  from below.IH obtain us ws
    where "stepTokens (thrs ! j) = us @ ws" and "stepTokens s' = us @ mvalue t # ws"
    by blast
  from concat_map_update_insert [OF below(1) this] obtain ps qs
    where "concat (map stepTokens thrs) = ps @ qs"
      and "concat (map stepTokens (thrs[j := s'])) = ps @ mvalue t # qs"
    by blast
  then have "stepTokens (RecipeStep acts thrs cs adjs chks)
        = (concat (map actionTokens acts) @ concat (map cueTokens cs)
            @ concat (map checkTokens chks) @ ps) @ qs"
    and "stepTokens (RecipeStep acts (thrs[j := s']) cs adjs chks)
        = (concat (map actionTokens acts) @ concat (map cueTokens cs)
            @ concat (map checkTokens chks) @ ps) @ mvalue t # qs"
    by simp_all
  then show ?case by blast
qed

lemma fillBuckets_populated:
  assumes "k < length (steps r)" and "populatesTemperature t (steps r ! k) s'"
  shows "fillBuckets N (r\<lparr>steps := (steps r)[k := s']\<rparr>) b n
    = hashAttribute N (mvalue t) (fillBuckets N r b n) n"
proof -
  from populatesTemperature_tokens [OF assms(2)] obtain us ws
    where "stepTokens (steps r ! k) = us @ ws" and "stepTokens s' = us @ mvalue t # ws"
    by blast
  from concat_map_update_insert [OF assms(1) this] obtain ps qs
    where "concat (map stepTokens (steps r)) = ps @ qs"
      and "concat (map stepTokens ((steps r)[k := s'])) = ps @ mvalue t # qs"
    by blast
  then have "recipeTokens r = (map (\<lambda>i. Str (name i)) (ingredients r) @ ps) @ qs"
    and "recipeTokens (r\<lparr>steps := (steps r)[k := s']\<rparr>)
      = (map (\<lambda>i. Str (name i)) (ingredients r) @ ps) @ mvalue t # qs"
    by (simp_all add: recipeTokens_def)
  then show ?thesis
    by (simp only: fillBuckets_tokens hashTokens_insert)
qed

lemma hashAttribute_one_bucket:
  assumes "v \<noteq> Undefined" and "v \<noteq> Null" and "0 < n" and "length h = n"
  shows "\<exists>i<n. hashAttribute N v h n = h[i := h ! i + 1]"
proof -
  have "\<exists>i<n. increment h (bucketIndex N s n) = h[i := h ! i + 1]" for s
  proof -
    let ?i = "unat (drop_bit 96 (md5 N (toLowerCase N s))) mod n"
    have "?i < n" using assms(3) by simp
    moreover have "increment h (bucketIndex N s n) = h[?i := h ! ?i + 1]"
      using assms(3,4) by (simp add: bucketIndex_def increment_def)
    ultimately show ?thesis by blast
  qed
  with assms(1,2) show ?thesis
    by (cases v) (simp_all add: hashAttribute_def)
qed

section \<open>The properties of the specification\<close>

text \<open>
  C7. When the hashes of the two operands decompress to buffers of different lengths,
  that is to histograms with different bucket counts, \<^verbatim>\<open>compareTo\<close> raises
  \<^verbatim>\<open>Error('Hashes must be of equal length')\<close> and returns no score: nothing is
  truncated or padded. The error differs from every error \<^verbatim>\<open>decompressHash\<close> raises
  for a payload that does not decode.
\<close>

theorem compareTo_length_mismatch_raises:
  assumes "fst (operandHash N \<sigma> (RecipeRef this)) = Inr (Buffer_toString_hex as)"
    and "fst (operandHash N (snd (operandHash N \<sigma> (RecipeRef this))) other)
           = Inr (Buffer_toString_hex bs)"
    and "length as \<noteq> length bs"
  shows "fst (compareTo N \<sigma> this other) = Inl (Error ''Hashes must be of equal length'')
    \<and> (\<forall>h e. decompressHash N h = Inl e \<longrightarrow> fst (compareTo N \<sigma> this other) \<noteq> Inl e)"
proof -
  have "fst (compareTo N \<sigma> this other) = Inl (Error ''Hashes must be of equal length'')"
    using compareTo_hashes [OF assms(1,2)] assms(3)
    by (simp add: compareHashes_def length_Buffer_toString_hex)
  moreover have "e = Error ''Invalid hash format: unable to decompress''"
    if "decompressHash N h = Inl e" for h e
    using that by (simp add: decompressHash_def split: option.splits)
  ultimately show ?thesis by auto
qed

theorem compareTo_length_mismatch_raises_witness:
  "fst (operandHash sampleRuntime (\<lambda>_. latteCooked1) (RecipeRef 0))
     = Inr (Buffer_toString_hex [10])
   \<and> fst (operandHash sampleRuntime
            (snd (operandHash sampleRuntime (\<lambda>_. latteCooked1) (RecipeRef 0)))
            (HashString ''1f8b0307'')) = Inr (Buffer_toString_hex [3, 7])
   \<and> length [10 :: byte] \<noteq> length [3, 7 :: byte]
   \<and> fst (compareTo sampleRuntime (\<lambda>_. latteCooked1) 0 (HashString ''1f8b0307''))
       = Inl (Error ''Hashes must be of equal length'')"
proof -
  have 1: "fst (operandHash sampleRuntime (\<lambda>_. latteCooked1) (RecipeRef 0))
      = Inr (Buffer_toString_hex [10])"
    by code_simp
  have 2: "fst (operandHash sampleRuntime
             (snd (operandHash sampleRuntime (\<lambda>_. latteCooked1) (RecipeRef 0)))
             (HashString ''1f8b0307'')) = Inr (Buffer_toString_hex [3, 7])"
    by code_simp
  have 3: "length [10 :: byte] \<noteq> length [3, 7 :: byte]" by simp
  from compareTo_length_mismatch_raises [OF 1 2 3] 1 2 show ?thesis
    by simp
qed

text \<open>
  C2. Two invocations of \<^verbatim>\<open>cook(N)\<close> yield the same result: on one recipe object
  (the second call sees what the first left in the object), and on two different objects
  constructed alike, that is with the same ingredients and steps and the cache still
  \<^verbatim>\<open>null\<close>. The result is a function of the ingredients, the steps and \<open>N\<close> (and of
  the runtime functions, which are functions of their arguments).
\<close>

theorem cook_deterministic:
  "fst (cookAt N (snd (cookAt N \<sigma> r n)) r n) = fst (cookAt N \<sigma> r n)
   \<and> (r1 \<noteq> r2 \<and> ingredients (\<sigma> r1) = ingredients (\<sigma> r2) \<and> steps (\<sigma> r1) = steps (\<sigma> r2)
        \<and> hash (\<sigma> r1) = None \<and> hash (\<sigma> r2) = None
      \<longrightarrow> fst (cookAt N (snd (cookAt N \<sigma> r1 n)) r2 n) = fst (cookAt N \<sigma> r1 n))"
proof -
  have "fst (cookAt N (snd (cookAt N \<sigma> r1 n)) r2 n) = fst (cookAt N \<sigma> r1 n)"
    if "r1 \<noteq> r2" and "ingredients (\<sigma> r1) = ingredients (\<sigma> r2)" and "steps (\<sigma> r1) = steps (\<sigma> r2)"
      and "hash (\<sigma> r1) = None" and "hash (\<sigma> r2) = None"
  proof -
    have "fst (cookAt N (snd (cookAt N \<sigma> r1 n)) r2 n) = fst (cook N (\<sigma> r2) n)"
      using that(1) by (simp add: cookAt_def case_prod_beta)
    also have "\<dots> = fst (cook N (\<sigma> r1) n)"
      using that by (intro cook_content) (simp_all add: cachedHash_def)
    finally show ?thesis by (simp add: cookAt_def case_prod_beta)
  qed
  then show ?thesis using cookAt_again by blast
qed

theorem cook_deterministic_witness:
  "fst (cookAt sampleRuntime (snd (cookAt sampleRuntime (\<lambda>_. latteCaffe) 0 4)) 0 4)
     = fst (cookAt sampleRuntime (\<lambda>_. latteCaffe) 0 4)
   \<and> (0 :: ref) \<noteq> 1
   \<and> ingredients ((\<lambda>_. latteCaffe) (0 :: ref)) = ingredients ((\<lambda>_. latteCaffe) (1 :: ref))
   \<and> steps ((\<lambda>_. latteCaffe) (0 :: ref)) = steps ((\<lambda>_. latteCaffe) (1 :: ref))
   \<and> hash ((\<lambda>_. latteCaffe) (0 :: ref)) = None \<and> hash ((\<lambda>_. latteCaffe) (1 :: ref)) = None
   \<and> fst (cookAt sampleRuntime (snd (cookAt sampleRuntime (\<lambda>_. latteCaffe) 0 4)) 1 4)
       = fst (cookAt sampleRuntime (\<lambda>_. latteCaffe) 0 4)
   \<and> fst (cookAt sampleRuntime (\<lambda>_. latteCaffe) 0 4) = Inr ''1f8b02060002''"
proof -
  have h: "hash latteCaffe = None" by (simp add: latteCaffe_def Recipe_create_def)
  have v: "fst (cookAt sampleRuntime (\<lambda>_. latteCaffe) 0 4) = Inr ''1f8b02060002''"
    by code_simp
  from cook_deterministic [of sampleRuntime "\<lambda>_. latteCaffe" 0 4 0 1] h v show ?thesis
    by simp
qed

text \<open>
  C10. Once \<^verbatim>\<open>cook\<close> has returned a hash \<open>h\<close> for a recipe object, every later call
  on that object returns \<open>h\<close> and leaves the object as it is, whatever \<open>numBuckets\<close> is
  passed (even one that a fresh object rejects) and whatever has happened to the other
  fields in between, \<^verbatim>\<open>scale\<close> and \<^verbatim>\<open>addTags\<close> included: only the field \<open>hash\<close> is
  looked at. An object from the constructor has no cache and is computed afresh. That
  \<open>h\<close> is not the empty string holds for every base64 text of a gzip stream; it is a
  hypothesis here because the runtime is a parameter.
\<close>

theorem cook_cache_absolute:
  assumes "cook N this n = (Inr h, this')" and "h \<noteq> []"
  shows "cook N this' m = (Inr h, this')
    \<and> cook N (scale this' factor) m = (Inr h, scale this' factor)
    \<and> cook N (addTags this' newTags) m = (Inr h, addTags this' newTags)
    \<and> (\<forall>r. hash r = hash this' \<longrightarrow> cook N r m = (Inr h, r))
    \<and> (\<forall>b. newArrayFill0 m = Inr b \<longrightarrow>
          fst (cook N (Recipe_create nm ings tls apps sts srv diff tgs) m)
            = Inr (encodeBuckets N
                (fillBuckets N (Recipe_create nm ings tls apps sts srv diff tgs) b (nat \<lfloor>m\<rfloor>))))"
proof -
  have "hash this' = Some h"
    using assms(1)
    by (auto simp: cook_def cachedHash_def Let_def split: option.splits sum.splits if_splits)
  then have cached: "cachedHash r = Some h" if "hash r = hash this'" for r
    using that assms(2) by (simp add: cachedHash_def)
  have all: "cook N r m = (Inr h, r)" if "hash r = hash this'" for r
    using cached [OF that] by (rule cook_cached)
  have "cachedHash (Recipe_create nm ings tls apps sts srv diff tgs) = None"
    by (simp add: cachedHash_def Recipe_create_def)
  then have fresh: "fst (cook N (Recipe_create nm ings tls apps sts srv diff tgs) m)
      = Inr (encodeBuckets N
          (fillBuckets N (Recipe_create nm ings tls apps sts srv diff tgs) b (nat \<lfloor>m\<rfloor>)))"
    if "newArrayFill0 m = Inr b" for b
    using that by (simp add: cook_def Let_def)
  have "hash (scale this' factor) = hash this'" "hash (addTags this' newTags) = hash this'"
    by (simp_all add: scale_def addTags_def)
  with all fresh show ?thesis by simp
qed

theorem cook_cache_absolute_witness:
  "cook sampleRuntime latteCaffe 4
     = (Inr ''1f8b02060002'', latteCaffe\<lparr>hash := Some ''1f8b02060002''\<rparr>)
   \<and> ''1f8b02060002'' \<noteq> []
   \<and> cook sampleRuntime (scale (latteCaffe\<lparr>hash := Some ''1f8b02060002''\<rparr>) 2) 8
       = (Inr ''1f8b02060002'', scale (latteCaffe\<lparr>hash := Some ''1f8b02060002''\<rparr>) 2)
   \<and> cook sampleRuntime (addTags (latteCaffe\<lparr>hash := Some ''1f8b02060002''\<rparr>) [''quick'']) (- 1)
       = (Inr ''1f8b02060002'', addTags (latteCaffe\<lparr>hash := Some ''1f8b02060002''\<rparr>) [''quick''])"
proof -
  have 1: "cook sampleRuntime latteCaffe 4
     = (Inr ''1f8b02060002'', latteCaffe\<lparr>hash := Some ''1f8b02060002''\<rparr>)"
    by code_simp
  have 2: "''1f8b02060002'' \<noteq> []" by simp
  from cook_cache_absolute [OF 1 2, of 8 2] cook_cache_absolute [OF 1 2, of "- 1" _ "[''quick'']"] 1
  show ?thesis by simp
qed

text \<open>
  C5. The claim: \<^verbatim>\<open>cook\<close> raises an error for every \<open>numBuckets\<close> that is not a positive
  integer. The code has no check of its own; what rejects a length is
  \<^verbatim>\<open>new Array(numBuckets)\<close>, and it accepts \<open>0\<close>: \<^verbatim>\<open>cook(0)\<close> returns the hash of the
  empty histogram.
\<close>

theorem cook_zero_buckets_returns_hash:
  "fst (cook sampleRuntime latteCaffe 0) = Inr ''1f8b''"
  by code_simp

text \<open>
  C5, as the code has it. On a recipe object with no cached hash, \<^verbatim>\<open>cook\<close> raises
  the \<^verbatim>\<open>RangeError\<close> of the array allocation, and leaves the object as it is, for every
  \<open>numBuckets\<close> that is negative, not an integer, or \<open>2\<^sup>3\<^sup>2\<close> or more; every other
  \<open>numBuckets\<close>, \<open>0\<close> included, yields a hash, which the object caches.
\<close>

theorem cook_rejects_bad_length:
  assumes "cachedHash this = None"
  shows "(n \<notin> \<int> \<or> n < 0 \<or> 2 ^ 32 \<le> n \<longrightarrow> cook N this n = (Inl RangeError, this))
    \<and> (n \<in> \<int> \<and> 0 \<le> n \<and> n < 2 ^ 32
          \<longrightarrow> (\<exists>h. cook N this n = (Inr h, this\<lparr>hash := Some h\<rparr>)))"
proof -
  have "cook N this n = (Inl RangeError, this)" if "n \<notin> \<int> \<or> n < 0 \<or> 2 ^ 32 \<le> n"
    using newArrayFill0_bad [OF that] assms by (simp add: cook_def)
  moreover have "\<exists>h. cook N this n = (Inr h, this\<lparr>hash := Some h\<rparr>)"
    if "n \<in> \<int>" "0 \<le> n" "n < 2 ^ 32"
    using newArrayFill0_ok [OF that] assms by (simp add: cook_def Let_def)
  ultimately show ?thesis by blast
qed

theorem cook_rejects_bad_length_witness:
  "cachedHash latteCaffe = None
   \<and> (- 1 :: rat) < 0
   \<and> cook sampleRuntime latteCaffe (- 1) = (Inl RangeError, latteCaffe)
   \<and> (5 / 2 :: rat) \<notin> \<int>
   \<and> cook sampleRuntime latteCaffe (5 / 2) = (Inl RangeError, latteCaffe)
   \<and> ((4 :: rat) \<in> \<int> \<and> (0 :: rat) \<le> 4 \<and> (4 :: rat) < 2 ^ 32)
   \<and> (\<exists>h. cook sampleRuntime latteCaffe 4 = (Inr h, latteCaffe\<lparr>hash := Some h\<rparr>))"
proof -
  have c: "cachedHash latteCaffe = None"
    by (simp add: cachedHash_def latteCaffe_def Recipe_create_def)
  have a: "(- 1 :: rat) < 0" by simp
  have b: "(5 / 2 :: rat) \<notin> \<int>"
  proof
    assume "(5 / 2 :: rat) \<in> \<int>"
    then obtain k :: int where "(5 / 2 :: rat) = of_int k" by (auto elim: Ints_cases)
    then have "(of_int (2 * k) :: rat) = of_int 5" by simp
    then have "2 * k = 5" by (simp only: of_int_eq_iff)
    then show False by presburger
  qed
  have d: "(4 :: rat) \<in> \<int>" by simp
  from cook_rejects_bad_length [OF c, of "- 1" sampleRuntime]
    cook_rejects_bad_length [OF c, of "5 / 2" sampleRuntime]
    cook_rejects_bad_length [OF c, of 4 sampleRuntime] a b c d
  show ?thesis by simp
qed

text \<open>
  C4. The claim: decoding the encoding of a histogram recovers it, for every sequence
  of non-negative counts. The code writes a count with \<^verbatim>\<open>padStart(2, '0')\<close> and reads
  two characters for each count, but never bounds a count by 255. A recipe with 256
  ingredients of one name, cooked into one bucket, has the histogram \<open>[256]\<close>; its hex
  string is \<^verbatim>\<open>100\<close>, of which \<^verbatim>\<open>Buffer.from(_, 'hex')\<close> keeps the byte \<open>0x10\<close>, so the
  hash is that of the histogram \<open>[16]\<close> and a decoder reads the count 16. This holds
  under every runtime.
\<close>

theorem encode_overflow_collision:
  "fillBuckets N manyIngredients [0] 1 = [256]
   \<and> hexString [256] = ''100''
   \<and> Buffer_from_hex ''100'' = [16]
   \<and> fst (cook N manyIngredients 1) = Inr (toBase64 N (gzipSync N [16]))
   \<and> encodeBuckets N [256] = encodeBuckets N [16]
   \<and> Buffer_toString_hex [16] = ''10''
   \<and> parseInt16 (substr ''10'' 0 2) = Some 16"
proof -
  have c: "cachedHash manyIngredients = None"
    by (simp add: cachedHash_def manyIngredients_def Recipe_create_def)
  have n: "newArrayFill0 1 = Inr [0]"
    by (simp add: newArrayFill0_def)
  have e: "encodeBuckets N [256] = toBase64 N (gzipSync N [16])"
    by (simp only: encodeBuckets_def hexString_256 Buffer_from_hex_100)
  have "hexString [16] = ''10''" by code_simp
  moreover have "Buffer_from_hex ''10'' = [16]" by code_simp
  ultimately have e': "encodeBuckets N [16] = toBase64 N (gzipSync N [16])"
    by (simp only: encodeBuckets_def)
  have f: "fillBuckets N manyIngredients [0] 1 = [256]"
    by (rule fillBuckets_manyIngredients) simp
  have "nat \<lfloor>1 :: rat\<rfloor> = 1" by simp
  then have k: "fst (cook N manyIngredients 1) = Inr (toBase64 N (gzipSync N [16]))"
    by (simp only: cook_def c n Let_def f e option.case sum.case fst_conv)
  have t: "Buffer_toString_hex [16] = ''10''" by code_simp
  have p: "parseInt16 (substr ''10'' 0 2) = Some 16" by code_simp
  show ?thesis
    by (simp only: f hexString_256 Buffer_from_hex_100 k e e' t p simp_thms)
qed

text \<open>
  C9. Adjustments contribute no token. Two recipes with the same ingredients whose
  steps differ only in their adjustments lists, at any depth of the step tree, have the
  same histogram and, cooked afresh, the same hash; a step hashes as the step without its
  adjustments. A step hashes the tokens of its actions, then for every cue its type and its
  description, then for every sensory check its type and its description, and after
  these, one after the other, its parallel child steps by the same rule.
\<close>

theorem adjustments_not_hashed:
  "(ingredients r1 = ingredients r2
      \<and> map stripAdjustments (steps r1) = map stripAdjustments (steps r2)
      \<longrightarrow> fillBuckets N r1 b n = fillBuckets N r2 b n
        \<and> (cachedHash r1 = None \<and> cachedHash r2 = None
             \<longrightarrow> fst (cook N r1 m) = fst (cook N r2 m)))
   \<and> hashStep N s b n = hashStep N (stripAdjustments s) b n
   \<and> hashStep N (RecipeStep acts thrs cs adjs chks) b n
       = fold (\<lambda>thread b. hashStep N thread b n) thrs
           (hashTokens N
              (concat (map actionTokens acts)
               @ concat (map (\<lambda>c. [cue_type c, cue_description c]) cs)
               @ concat (map (\<lambda>c. [check_type c, check_description c]) chks)) b n)"
proof -
  have same: "fillBuckets N r1 b' n' = fillBuckets N r2 b' n'"
    if "ingredients r1 = ingredients r2"
      and "map stripAdjustments (steps r1) = map stripAdjustments (steps r2)" for b' n'
    using recipeTokens_strip [OF that] by (simp add: fillBuckets_tokens)
  have cooked: "fst (cook N r1 m) = fst (cook N r2 m)"
    if "ingredients r1 = ingredients r2"
      and "map stripAdjustments (steps r1) = map stripAdjustments (steps r2)"
      and "cachedHash r1 = None" and "cachedHash r2 = None"
    using that(3,4) by (simp add: cook_fresh same [OF that(1,2)] split: sum.splits)
  have strip: "hashStep N s b n = hashStep N (stripAdjustments s) b n"
    by (simp add: hashStep_tokens stepTokens_strip)
  have "(\<lambda>c. [cue_type c, cue_description c]) = cueTokens"
    "(\<lambda>c. [check_type c, check_description c]) = checkTokens"
    by (simp_all add: fun_eq_iff cueTokens_def checkTokens_def)
  then have shape: "hashStep N (RecipeStep acts thrs cs adjs chks) b n
       = fold (\<lambda>thread b. hashStep N thread b n) thrs
           (hashTokens N
              (concat (map actionTokens acts)
               @ concat (map (\<lambda>c. [cue_type c, cue_description c]) cs)
               @ concat (map (\<lambda>c. [check_type c, check_description c]) chks)) b n)"
    by (simp add: hashTokens_concat hashAction_tokens hashCue_tokens hashCheck_tokens)
  from same cooked strip shape show ?thesis by blast
qed

theorem adjustments_not_hashed_witness:
  "ingredients latteCaffe = ingredients latteAdjusted
   \<and> map stripAdjustments (steps latteCaffe) = map stripAdjustments (steps latteAdjusted)
   \<and> steps latteCaffe \<noteq> steps latteAdjusted
   \<and> fillBuckets sampleRuntime latteCaffe [0, 0, 0, 0] 4 = [2, 6, 0, 2]
   \<and> fillBuckets sampleRuntime latteAdjusted [0, 0, 0, 0] 4 = [2, 6, 0, 2]
   \<and> cachedHash latteCaffe = None \<and> cachedHash latteAdjusted = None
   \<and> fst (cook sampleRuntime latteAdjusted 4) = fst (cook sampleRuntime latteCaffe 4)"
proof -
  have 1: "ingredients latteCaffe = ingredients latteAdjusted"
    by (simp add: latteAdjusted_def)
  have 2: "map stripAdjustments (steps latteCaffe) = map stripAdjustments (steps latteAdjusted)"
    by (simp add: latteAdjusted_def latteCaffe_def Recipe_create_def step1_def step2_def)
  have 3: "steps latteCaffe \<noteq> steps latteAdjusted"
    by (simp add: latteAdjusted_def latteCaffe_def Recipe_create_def step2_def)
  have 4: "cachedHash latteCaffe = None" "cachedHash latteAdjusted = None"
    by (simp_all add: cachedHash_def latteAdjusted_def latteCaffe_def Recipe_create_def)
  have 5: "fillBuckets sampleRuntime latteCaffe [0, 0, 0, 0] 4 = [2, 6, 0, 2]"
    by code_simp
  from adjustments_not_hashed [of latteCaffe latteAdjusted sampleRuntime "[0, 0, 0, 0]" 4 4]
    1 2 3 4 5
  show ?thesis by simp
qed

text \<open>
  C8. A value that is undefined or null is never hashed, and an action hashes a token
  only for those of its fields ingredient, container, temperature and duration that are
  present. So when two recipes are the same but for one action, at any depth of the step
  tree, whose missing temperature is populated in the second, the histogram of the
  second is that of the first after one more call of \<^verbatim>\<open>_hashAttribute\<close> on the value of
  the temperature: with a value that is neither undefined nor null and at least one
  bucket, exactly one bucket is one higher and every other bucket is the same.
\<close>

theorem null_fields_skipped:
  "hashAttribute N Undefined b n = b \<and> hashAttribute N Null b n = b
   \<and> hashAction N a b n
       = hashTokens N
           (action_type a #
            (case ingredient a of None \<Rightarrow> [] | Some e \<Rightarrow> [Str (name e)]) @
            (case container a of None \<Rightarrow> [] | Some e \<Rightarrow> [Str (name e)]) @
            (case temperature a of None \<Rightarrow> [] | Some t \<Rightarrow> [mvalue t]) @
            (case duration a of None \<Rightarrow> [] | Some d \<Rightarrow> [mvalue d])) b n
   \<and> (k < length (steps r) \<and> populatesTemperature t (steps r ! k) s'
        \<longrightarrow> fillBuckets N (r\<lparr>steps := (steps r)[k := s']\<rparr>) b n
              = hashAttribute N (mvalue t) (fillBuckets N r b n) n
          \<and> (mvalue t \<noteq> Undefined \<and> mvalue t \<noteq> Null \<and> 0 < n \<and> length b = n
               \<longrightarrow> (\<exists>i<n. fillBuckets N (r\<lparr>steps := (steps r)[k := s']\<rparr>) b n
                      = (fillBuckets N r b n)[i := fillBuckets N r b n ! i + 1])))"
proof -
  have skip: "hashAttribute N Undefined b n = b" "hashAttribute N Null b n = b"
    by (simp_all add: hashAttribute_def)
  have act: "hashAction N a b n
       = hashTokens N
           (action_type a #
            (case ingredient a of None \<Rightarrow> [] | Some e \<Rightarrow> [Str (name e)]) @
            (case container a of None \<Rightarrow> [] | Some e \<Rightarrow> [Str (name e)]) @
            (case temperature a of None \<Rightarrow> [] | Some t \<Rightarrow> [mvalue t]) @
            (case duration a of None \<Rightarrow> [] | Some d \<Rightarrow> [mvalue d])) b n"
    by (simp only: hashAction_tokens actionTokens_def)
  have one: "\<exists>i<n. fillBuckets N (r\<lparr>steps := (steps r)[k := s']\<rparr>) b n
                      = (fillBuckets N r b n)[i := fillBuckets N r b n ! i + 1]"
    if "k < length (steps r)" "populatesTemperature t (steps r ! k) s'"
      "mvalue t \<noteq> Undefined" "mvalue t \<noteq> Null" "0 < n" "length b = n"
    using hashAttribute_one_bucket [OF that(3,4,5), of "fillBuckets N r b n" N] that(6)
    by (simp add: fillBuckets_populated [OF that(1,2)])
  from skip act one fillBuckets_populated [of k r t s' N b n] show ?thesis
    by blast
qed

theorem null_fields_skipped_witness:
  "(1 :: nat) < length (steps latteCaffe)
   \<and> temperature heatAction = None
   \<and> populatesTemperature mediumHeat (steps latteCaffe ! 1) step2Heated
   \<and> mvalue mediumHeat \<noteq> Undefined \<and> mvalue mediumHeat \<noteq> Null
   \<and> (0 :: nat) < 4 \<and> length [0, 0, 0, 0 :: nat] = 4
   \<and> fillBuckets sampleRuntime latteCaffe [0, 0, 0, 0] 4 = [2, 6, 0, 2]
   \<and> fillBuckets sampleRuntime (latteCaffe\<lparr>steps := (steps latteCaffe)[1 := step2Heated]\<rparr>)
        [0, 0, 0, 0] 4 = [2, 7, 0, 2]"
proof -
  have 1: "(1 :: nat) < length (steps latteCaffe)"
    by (simp add: latteCaffe_def Recipe_create_def)
  have 0: "temperature heatAction = None"
    by (simp add: heatAction_def)
  have "populatesTemperature mediumHeat (RecipeStep [heatAction] [] [] [] [])
      (RecipeStep ([heatAction][0 := ([heatAction] ! 0)\<lparr>temperature := Some mediumHeat\<rparr>]) [] [] [] [])"
    by (rule populatesTemperature.here) (simp_all add: 0)
  then have 2: "populatesTemperature mediumHeat (steps latteCaffe ! 1) step2Heated"
    by (simp add: latteCaffe_def Recipe_create_def step2_def step2Heated_def)
  have 3: "mvalue mediumHeat \<noteq> Undefined" "mvalue mediumHeat \<noteq> Null"
    by (simp_all add: mediumHeat_def)
  have 4: "fillBuckets sampleRuntime latteCaffe [0, 0, 0, 0] 4 = [2, 6, 0, 2]"
    by code_simp
  have 5: "hashAttribute sampleRuntime (mvalue mediumHeat) [2, 6, 0, 2] 4 = [2, 7, 0, 2]"
    by code_simp
  from null_fields_skipped [of sampleRuntime "[0, 0, 0, 0]" 4 _ 1 latteCaffe mediumHeat step2Heated]
    0 1 2 3 4 5
  show ?thesis by simp
qed

text \<open>
  C1. The claim: for operands whose decoded histograms have the same length,
  \<^verbatim>\<open>compareTo\<close> returns exactly \<open>1 - D / (16 * N)\<close>, with \<open>N\<close> the number of buckets and
  \<open>D\<close> the sum over all buckets of the absolute difference of the two counts. The value
  returned is a double: for three buckets and distance 1 it is
  \<open>8819549270267221 / 2\<^sup>5\<^sup>3\<close> (printed \<^verbatim>\<open>0.9791666666666666\<close>), not \<open>47 / 48\<close>.
\<close>

theorem compareTo_score_is_rounded:
  "hash latteCooked3 = Some ''1f8b020206''
   \<and> bucketDistance [2, 2, 6] [3, 2, 6] = 1
   \<and> fst (compareTo sampleRuntime (\<lambda>_. latteCooked3) 0 (HashString ''1f8b030206''))
       = Inr (Finite (8819549270267221 / 2 ^ 53))
   \<and> (8819549270267221 / 2 ^ 53 :: rat) \<noteq> 1 - 1 / (16 * 3)"
  by code_simp

text \<open>
  C1, as the code has it. For operands whose hashes decompress to buffers \<open>as\<close> and
  \<open>bs\<close> of the same length \<open>N\<close>, one byte for each bucket, \<^verbatim>\<open>compareTo\<close> returns the
  double that the expression \<^verbatim>\<open>1 - D / (16 * N)\<close> evaluates to: the quotient rounded to
  the nearest double, subtracted from 1, and the difference rounded again. The divisor for
  each bucket is 16 and the result is not clamped: whenever \<open>D\<close> exceeds \<open>16 * N\<close> the
  value returned is negative. With no bucket the expression is \<^verbatim>\<open>1 - 0 / 0\<close>, NaN. The
  bound on \<open>N\<close> keeps \<open>D\<close> below \<open>2\<^sup>5\<^sup>3\<close>, so that the sum of the loop is exact; no
  string of a JavaScript engine comes near it.
\<close>

theorem compareTo_similarity_formula:
  assumes "fst (operandHash N \<sigma> (RecipeRef this)) = Inr (Buffer_toString_hex as)"
    and "fst (operandHash N (snd (operandHash N \<sigma> (RecipeRef this))) other)
           = Inr (Buffer_toString_hex bs)"
    and "length as = length bs"
    and "255 * length as < 2 ^ 53"
  shows "fst (compareTo N \<sigma> this other)
      = Inr (if as = [] then NaN
             else Finite (roundToDouble
               (1 - roundToDouble (of_nat (bucketDistance as bs) / (16 * of_nat (length as))))))
    \<and> (16 * length as < bucketDistance as bs
         \<longrightarrow> (\<exists>q. fst (compareTo N \<sigma> this other) = Inr (Finite q) \<and> q < 0))"
proof -
  have eq: "fst (compareTo N \<sigma> this other)
      = Inr (if as = [] then NaN
             else Finite (roundToDouble
               (1 - roundToDouble (of_nat (bucketDistance as bs) / (16 * of_nat (length as))))))"
    using compareTo_hashes [OF assms(1,2)] compareHashes_hex [OF assms(3,4)] by simp
  have neg: "roundToDouble
      (1 - roundToDouble (of_nat (bucketDistance as bs) / (16 * of_nat (length as)))) < 0"
    and ne: "as \<noteq> []"
    if far: "16 * length as < bucketDistance as bs"
  proof -
    show ne: "as \<noteq> []" using far by (auto simp: bucketDistance_def)
    then have "0 < 16 * length as" by simp
    moreover have "16 * length as < 2 ^ 53" using assms(4) by simp
    ultimately have "roundToDouble
        (1 - roundToDouble (of_nat (bucketDistance as bs) / of_nat (16 * length as))) < 0"
      using far by (rule score_negative)
    then show "roundToDouble
        (1 - roundToDouble (of_nat (bucketDistance as bs) / (16 * of_nat (length as)))) < 0"
      by simp
  qed
  from eq neg ne show ?thesis by simp
qed

text \<open>
  The recipe of the example, cooked into one bucket (count 10), against the hash of one
  bucket of count 27: the distance is 17 and the score \<open>- 1 / 16\<close>, which is a double.
\<close>

theorem compareTo_similarity_formula_witness:
  "fst (operandHash sampleRuntime (\<lambda>_. latteCooked1) (RecipeRef 0))
     = Inr (Buffer_toString_hex [10])
   \<and> fst (operandHash sampleRuntime
            (snd (operandHash sampleRuntime (\<lambda>_. latteCooked1) (RecipeRef 0)))
            (HashString ''1f8b1b'')) = Inr (Buffer_toString_hex [27])
   \<and> length [10 :: byte] = length [27 :: byte]
   \<and> 255 * length [10 :: byte] < 2 ^ 53
   \<and> 16 * length [10 :: byte] < bucketDistance [10] [27]
   \<and> fst (compareTo sampleRuntime (\<lambda>_. latteCooked1) 0 (HashString ''1f8b1b''))
       = Inr (Finite (- 1 / 16))"
proof -
  have 1: "fst (operandHash sampleRuntime (\<lambda>_. latteCooked1) (RecipeRef 0))
      = Inr (Buffer_toString_hex [10])"
    by code_simp
  have 2: "fst (operandHash sampleRuntime
             (snd (operandHash sampleRuntime (\<lambda>_. latteCooked1) (RecipeRef 0)))
             (HashString ''1f8b1b'')) = Inr (Buffer_toString_hex [27])"
    by code_simp
  have 3: "length [10 :: byte] = length [27 :: byte]" by simp
  have 4: "255 * length [10 :: byte] < 2 ^ 53" by simp
  have 5: "bucketDistance [10] [27] = 17" by (simp add: bucketDistance_def)
  have 6: "roundToDouble (1 - roundToDouble (17 / 16)) = - 1 / 16" by code_simp
  from compareTo_similarity_formula [OF 1 2 3 4] 1 2 5 6 show ?thesis
    by simp
qed

text \<open>
  C3. The claim: \<^verbatim>\<open>compareTo\<close> applied to a recipe and itself returns exactly 1. The
  code breaks it for a recipe object that holds the hash of \<^verbatim>\<open>cook(0)\<close>: the decoded
  histogram has no bucket, the loop adds nothing and the score is \<^verbatim>\<open>1 - 0 / 0\<close>, NaN,
  where the documentation of \<^verbatim>\<open>compareTo\<close> promises a value between 0 and 1. For a hash
  of at least one bucket the score is 1 (\<open>compareTo_self\<close>, \<open>compareTo_self_fresh\<close>).
\<close>

theorem compareTo_self_empty_histogram_NaN:
  "fst (compareTo sampleRuntime (\<lambda>_. latteCooked0) 0 (RecipeRef 0)) = Inr NaN"
  by code_simp

text \<open>
  C6. The claim: comparing a recipe against a string that is not a valid
  base64-encoded gzip payload raises the decode error and never returns a score.
  \<^verbatim>\<open>Buffer.from(s, 'base64')\<close> rejects nothing: it skips the characters that are no
  base64 digits. The hash \<^verbatim>\<open>H4sK\<close> with \<^verbatim>\<open>!!\<close> appended is no base64 text, decodes to the
  bytes of the hash, and gets the score 1.
\<close>

theorem compareTo_scores_malformed_base64:
  "\<not> validBase64 ''H4sK!!''
   \<and> hash latteBase64 = Some ''H4sK''
   \<and> fst (compareTo base64Runtime (\<lambda>_. latteBase64) 0 (HashString ''H4sK!!''))
       = Inr (Finite 1)"
  by code_simp

text \<open>
  C6, as the code has it. Whether \<^verbatim>\<open>compareTo\<close> raises the decode error,
  \<^verbatim>\<open>Error('Invalid hash format: unable to decompress')\<close>, for an operand string is
  decided by \<^verbatim>\<open>gunzipSync\<close> on the bytes that \<^verbatim>\<open>Buffer.from(s, 'base64')\<close> yields: when
  it throws on them, as for \<^verbatim>\<open>"not-base64!!"\<close>, the error is raised and no score is
  returned, whatever the recipe; when it accepts them, and accepts the bytes of the hash of
  the recipe itself, the result is that of comparing the two decompressed buffers, a score
  or the length error, never the decode error.
\<close>

theorem compareTo_decode_error:
  "(gunzipSync N (fromBase64 N s) = None
      \<longrightarrow> fst (compareTo N \<sigma> this (HashString s))
            = Inl (Error ''Invalid hash format: unable to decompress''))
   \<and> (fst (cookAt N \<sigma> this 256) = Inr h \<and> gunzipSync N (fromBase64 N h) = Some as
        \<and> gunzipSync N (fromBase64 N s) = Some bs
      \<longrightarrow> fst (compareTo N \<sigma> this (HashString s))
            = compareHashes (Buffer_toString_hex as) (Buffer_toString_hex bs)
        \<and> fst (compareTo N \<sigma> this (HashString s))
            \<noteq> Inl (Error ''Invalid hash format: unable to decompress''))"
proof -
  have raised: "fst (compareTo N \<sigma> this (HashString s))
      = Inl (Error ''Invalid hash format: unable to decompress'')"
    if none: "gunzipSync N (fromBase64 N s) = None"
  proof -
    obtain h' where h': "fst (cookAt N \<sigma> this 256) = Inr h'"
      using cookAt_256_succeeds by blast
    have other: "decompressHash N s = Inl (Error ''Invalid hash format: unable to decompress'')"
      using none by (simp add: decompressHash_def)
    have second: "operandHash N \<sigma>' (HashString s)
        = (Inl (Error ''Invalid hash format: unable to decompress''), \<sigma>')" for \<sigma>'
      by (simp add: operandHash_def other)
    show ?thesis
      using decompressHash_cases [of N h']
      by (auto simp: compareTo_def operandHash_RecipeRef [OF h'] second)
  qed
  have scored: "fst (compareTo N \<sigma> this (HashString s))
        = compareHashes (Buffer_toString_hex as) (Buffer_toString_hex bs)"
    if "fst (cookAt N \<sigma> this 256) = Inr h" "gunzipSync N (fromBase64 N h) = Some as"
      "gunzipSync N (fromBase64 N s) = Some bs"
  proof -
    have 1: "fst (operandHash N \<sigma> (RecipeRef this)) = Inr (Buffer_toString_hex as)"
      using operandHash_RecipeRef [OF that(1)] that(2) by (simp add: decompressHash_def)
    have 2: "fst (operandHash N (snd (operandHash N \<sigma> (RecipeRef this))) (HashString s))
        = Inr (Buffer_toString_hex bs)"
      using that(3) by (simp add: operandHash_def decompressHash_def)
    from compareTo_hashes [OF 1 2] show ?thesis .
  qed
  have "compareHashes x y \<noteq> Inl (Error ''Invalid hash format: unable to decompress'')" for x y
    by (simp add: compareHashes_def Let_def split: option.splits)
  with raised scored show ?thesis by simp
qed

theorem compareTo_decode_error_witness:
  "gunzipSync base64Runtime (fromBase64 base64Runtime ''not-base64!!'') = None
   \<and> fst (compareTo base64Runtime (\<lambda>_. latteCaffe) 0 (HashString ''not-base64!!''))
       = Inl (Error ''Invalid hash format: unable to decompress'')
   \<and> fst (cookAt base64Runtime (\<lambda>_. latteBase64) 0 256) = Inr ''H4sK''
   \<and> gunzipSync base64Runtime (fromBase64 base64Runtime ''H4sK'') = Some [10]
   \<and> gunzipSync base64Runtime (fromBase64 base64Runtime ''H4sb'') = Some [27]
   \<and> fst (compareTo base64Runtime (\<lambda>_. latteBase64) 0 (HashString ''H4sb''))
       = compareHashes (Buffer_toString_hex [10]) (Buffer_toString_hex [27])"
proof -
  have 1: "gunzipSync base64Runtime (fromBase64 base64Runtime ''not-base64!!'') = None"
    by code_simp
  have 2: "fst (cookAt base64Runtime (\<lambda>_. latteBase64) 0 256) = Inr ''H4sK''"
    by code_simp
  have 3: "gunzipSync base64Runtime (fromBase64 base64Runtime ''H4sK'') = Some [10]"
    by code_simp
  have 4: "gunzipSync base64Runtime (fromBase64 base64Runtime ''H4sb'') = Some [27]"
    by code_simp
  from compareTo_decode_error [of base64Runtime "''not-base64!!''" "\<lambda>_. latteCaffe" 0]
    compareTo_decode_error [of base64Runtime "''H4sb''" "\<lambda>_. latteBase64" 0 "''H4sK''" "[10]" "[27]"]
    1 2 3 4
  show ?thesis by simp
qed

end
